theory Spec2Isabelle
  imports Main "HOL-Library.Char_ord" "HOL-Library.List_Lexorder" "HOL-Library.Sublist"
begin

section \<open>The file system that install.py runs on\<close>

text \<open>
  install.py manages symbolic links with pathlib. Its own functions (\<open>Item.check_status\<close>,
  \<open>discover_items\<close>, \<open>apply_changes\<close>, \<open>_install_item\<close>, \<open>_uninstall_item\<close>) are
  embedded below over an explicit file system, passed in and returned.

  A path is the list of its components below the root (\<open>[]\<close> is \<open>/\<close>); paths are
  absolute and hold no \<open>.\<close> or \<open>..\<close> component, and so do the targets of symbolic
  links. A file system is an association list from the real location of an entry to
  its node; the root is always a directory. Permissions are not part of the model, so
  the only errors of the system calls are the ones listed in \<open>errno\<close>. The library
  functions are those of Python 3.11 on Linux.
\<close>

type_synonym path = "string list"

datatype node = File string | Dir | Symlink path

type_synonym filesystem = "(path \<times> node) list"

datatype errno = ENOENT | EEXIST | ENOTDIR | EISDIR | ELOOP

text \<open>Python exceptions: \<open>OSError\<close> with its errno and file name (\<open>OSError2\<close> with
  two file names, as \<open>os.symlink\<close> raises it), and the \<open>RuntimeError\<close> that
  \<open>Path.resolve\<close> raises on a symlink loop.\<close>

datatype exn = OSError errno path | OSError2 errno path path | RuntimeError string

definition MAXSYMLINKS :: nat where
  "MAXSYMLINKS = 40"

definition node_at :: "filesystem \<Rightarrow> path \<Rightarrow> node option" where
  "node_at fs p = (if p = [] then Some Dir else map_of fs p)"

text \<open>
  Path resolution of the kernel, following every symbolic link on the way (the last
  component too): \<open>cur\<close> is the real directory reached so far, the list is what is left
  to walk, and \<open>k\<close> is the number of links that may still be followed.
\<close>

fun walk :: "filesystem \<Rightarrow> nat \<Rightarrow> path \<Rightarrow> path \<Rightarrow> errno + path" where
  "walk fs k cur [] = Inr cur"
| "walk fs k cur (c # rest) =
     (case node_at fs cur of
        Some Dir \<Rightarrow>
          (case node_at fs (cur @ [c]) of
             None \<Rightarrow> Inl ENOENT
           | Some (Symlink t) \<Rightarrow>
               (case k of 0 \<Rightarrow> Inl ELOOP | Suc k' \<Rightarrow> walk fs k' [] (t @ rest))
           | Some _ \<Rightarrow> walk fs k (cur @ [c]) rest)
      | Some (File _) \<Rightarrow> Inl ENOTDIR
      | _ \<Rightarrow> Inl ENOENT)"

text \<open>\<open>os.stat\<close> follows the last component, \<open>os.lstat\<close> does not.\<close>

definition stat :: "filesystem \<Rightarrow> path \<Rightarrow> errno + node" where
  "stat fs p =
     (case walk fs MAXSYMLINKS [] p of
        Inl e \<Rightarrow> Inl e
      | Inr r \<Rightarrow> (case node_at fs r of Some n \<Rightarrow> Inr n | None \<Rightarrow> Inl ENOENT))"

text \<open>The real location of the entry that \<open>p\<close> names: its parent resolved, its last
  component not followed.\<close>

definition entry_of :: "filesystem \<Rightarrow> path \<Rightarrow> errno + path" where
  "entry_of fs p =
     (case walk fs MAXSYMLINKS [] (butlast p) of
        Inl e \<Rightarrow> Inl e
      | Inr d \<Rightarrow>
          (case node_at fs d of
             Some Dir \<Rightarrow> Inr (d @ [last p])
           | Some (File _) \<Rightarrow> Inl ENOTDIR
           | _ \<Rightarrow> Inl ENOENT))"

definition lstat :: "filesystem \<Rightarrow> path \<Rightarrow> errno + node" where
  "lstat fs p =
     (if p = [] then Inr Dir
      else (case entry_of fs p of
              Inl e \<Rightarrow> Inl e
            | Inr q \<Rightarrow> (case node_at fs q of None \<Rightarrow> Inl ENOENT | Some n \<Rightarrow> Inr n)))"

subsection \<open>pathlib\<close>

text \<open>\<open>Path.exists\<close>, \<open>Path.is_dir\<close> and \<open>Path.is_symlink\<close> answer False on
  ENOENT, ENOTDIR and ELOOP, which are all the errors that \<open>stat\<close> and \<open>lstat\<close> have
  here. pathlib raises every other \<open>OSError\<close> of theirs again (EACCES, when a
  directory on the way may not be searched): that needs permissions, so these three
  functions give the value of a call that returns and say nothing of a call that
  raises.\<close>

definition exists :: "filesystem \<Rightarrow> path \<Rightarrow> bool" where
  "exists fs p = (case stat fs p of Inr _ \<Rightarrow> True | Inl _ \<Rightarrow> False)"

definition is_dir :: "filesystem \<Rightarrow> path \<Rightarrow> bool" where
  "is_dir fs p = (case stat fs p of Inr Dir \<Rightarrow> True | _ \<Rightarrow> False)"

definition is_symlink :: "filesystem \<Rightarrow> path \<Rightarrow> bool" where
  "is_symlink fs p = (case lstat fs p of Inr (Symlink _) \<Rightarrow> True | _ \<Rightarrow> False)"

text \<open>
  \<open>os.path.realpath\<close> in its non-strict mode (\<open>posixpath._joinrealpath\<close>). The work
  list holds the components still to walk; \<open>Done l\<close> marks the end of the target of
  the link \<open>l\<close>. \<open>cur\<close> is the path resolved so far: it holds no link, so \<open>lstat\<close> of
  \<open>cur/c\<close> reads the entry at \<open>cur @ [c]\<close>. A component that is no link, or is not
  there, is appended. A link met for the first time is entered in \<open>seen\<close> as
  unresolved and its target is walked from the root; at \<open>Done l\<close> the link is entered
  as resolved to \<open>cur\<close>. A link met again is replaced by its resolved path; when it
  is still unresolved there is a loop, and the result is the path of the link with
  the components left, and False. No number of links is too large.
\<close>

datatype work = Comp string | Done path

fun comps :: "work list \<Rightarrow> path" where
  "comps [] = []"
| "comps (Comp c # ws) = c # comps ws"
| "comps (Done l # ws) = comps ws"

function realpath ::
  "filesystem \<Rightarrow> (path \<times> path option) list \<Rightarrow> path \<Rightarrow> work list \<Rightarrow> path \<times> bool" where
  "realpath fs seen cur [] = (cur, True)"
| "realpath fs seen cur (Done l # rest) = realpath fs ((l, Some cur) # seen) cur rest"
| "realpath fs seen cur (Comp c # rest) =
     (case map_of fs (cur @ [c]) of
        Some (Symlink t) \<Rightarrow>
          (case map_of seen (cur @ [c]) of
             Some (Some p) \<Rightarrow> realpath fs seen p rest
           | Some None \<Rightarrow> (cur @ c # comps rest, False)
           | None \<Rightarrow>
               realpath fs ((cur @ [c], None) # seen) [] (map Comp t @ Done (cur @ [c]) # rest))
      | _ \<Rightarrow> realpath fs seen (cur @ [c]) rest)"
  by pat_completeness auto
termination
proof (relation "inv_image (less_than <*lex*> less_than)
    (\<lambda>(fs, seen, cur, ws). (card (fst ` set fs - fst ` set seen), length ws))")
  show "wf (inv_image (less_than <*lex*> less_than)
    (\<lambda>(fs, seen, cur, ws). (card (fst ` set fs - fst ` set seen), length (ws::work list))))"
    by (intro wf_inv_image wf_lex_prod wf_less_than)
next
  fix fs :: filesystem and seen :: "(path \<times> path option) list" and cur l :: path and rest
  have "card (fst ` set fs - fst ` set ((l, Some cur) # seen)) \<le> card (fst ` set fs - fst ` set seen)"
    by (rule card_mono) auto
  then show "((fs, (l, Some cur) # seen, cur, rest), fs, seen, cur, Done l # rest)
    \<in> inv_image (less_than <*lex*> less_than)
        (\<lambda>(fs, seen, cur, ws). (card (fst ` set fs - fst ` set seen), length ws))"
    by auto
next
  fix fs :: filesystem and seen :: "(path \<times> path option) list" and cur :: path and c rest x2 t
  assume a: "map_of fs (cur @ [c]) = Some x2" "x2 = Symlink t" "map_of seen (cur @ [c]) = None"
  from a(1) have "cur @ [c] \<in> fst ` set fs"
    by (metis map_of_eq_None_iff option.distinct(1))
  moreover from a(3) have "cur @ [c] \<notin> fst ` set seen"
    by (simp add: map_of_eq_None_iff)
  ultimately have "fst ` set fs - fst ` set ((cur @ [c], None) # seen) \<subset> fst ` set fs - fst ` set seen"
    by auto
  then have "card (fst ` set fs - fst ` set ((cur @ [c], None) # seen)) < card (fst ` set fs - fst ` set seen)"
    by (rule psubset_card_mono[rotated]) simp
  then show "((fs, (cur @ [c], None) # seen, [], map Comp t @ Done (cur @ [c]) # rest), fs, seen, cur, Comp c # rest)
    \<in> inv_image (less_than <*lex*> less_than)
        (\<lambda>(fs, seen, cur, ws). (card (fst ` set fs - fst ` set seen), length ws))"
    by simp
qed auto

definition str_path :: "path \<Rightarrow> string" where
  "str_path p = (if p = [] then ''/'' else concat (map (\<lambda>c. ''/'' @ c) p))"

text \<open>\<open>repr\<close> of a string: double quotes when the string holds a single quote and no
  double quote, single quotes otherwise; the quote in use, the backslash and the
  control characters are escaped. Bytes from 128 on are taken to be printable UTF-8.\<close>

definition hexdigit :: "nat \<Rightarrow> char" where
  "hexdigit n = ''0123456789abcdef'' ! n"

definition repr_char :: "char \<Rightarrow> char \<Rightarrow> string" where
  "repr_char q c =
     (if c = q \<or> c = CHR 0x5C then [CHR 0x5C, c]
      else if c = CHR 0x0A then [CHR 0x5C, CHR ''n'']
      else if c = CHR 0x0D then [CHR 0x5C, CHR ''r'']
      else if c = CHR 0x09 then [CHR 0x5C, CHR ''t'']
      else if (of_char c :: nat) < 32 \<or> (of_char c :: nat) = 127 then
        [CHR 0x5C, CHR ''x'', hexdigit ((of_char c :: nat) div 16),
         hexdigit ((of_char c :: nat) mod 16)]
      else [c])"

definition repr :: "string \<Rightarrow> string" where
  "repr s =
     (let q = (if CHR 0x27 \<in> set s \<and> CHR 0x22 \<notin> set s then CHR 0x22 else CHR 0x27)
      in [q] @ concat (map (repr_char q) s) @ [q])"

text \<open>\<open>Path.resolve()\<close>: the real path; pathlib then calls \<open>stat\<close> on it and raises a
  RuntimeError when the kernel reports a loop.\<close>

definition resolve :: "filesystem \<Rightarrow> path \<Rightarrow> exn + path" where
  "resolve fs p =
     (let r = fst (realpath fs [] [] (map Comp p))
      in (case stat fs r of
            Inl ELOOP \<Rightarrow> Inl (RuntimeError (''Symlink loop from '' @ repr (str_path r)))
          | _ \<Rightarrow> Inr r))"

fun strerror :: "errno \<Rightarrow> string" where
  "strerror ENOENT = ''[Errno 2] No such file or directory''"
| "strerror EEXIST = ''[Errno 17] File exists''"
| "strerror ENOTDIR = ''[Errno 20] Not a directory''"
| "strerror EISDIR = ''[Errno 21] Is a directory''"
| "strerror ELOOP = ''[Errno 40] Too many levels of symbolic links''"

text \<open>\<open>str(e)\<close> of an exception.\<close>

fun str_exn :: "exn \<Rightarrow> string" where
  "str_exn (OSError e p) = strerror e @ '': '' @ repr (str_path p)"
| "str_exn (OSError2 e p p2) =
     strerror e @ '': '' @ repr (str_path p) @ '' -> '' @ repr (str_path p2)"
| "str_exn (RuntimeError m) = m"

text \<open>\<open>os.mkdir\<close>, \<open>os.symlink\<close> and \<open>os.unlink\<close>: none follows the last component.\<close>

definition os_mkdir :: "filesystem \<Rightarrow> path \<Rightarrow> errno + filesystem" where
  "os_mkdir fs p =
     (if p = [] then Inl EEXIST
      else (case entry_of fs p of
              Inl e \<Rightarrow> Inl e
            | Inr q \<Rightarrow> (case node_at fs q of None \<Rightarrow> Inr ((q, Dir) # fs) | Some _ \<Rightarrow> Inl EEXIST)))"

definition os_symlink :: "filesystem \<Rightarrow> path \<Rightarrow> path \<Rightarrow> errno + filesystem" where
  "os_symlink fs target p =
     (if p = [] then Inl EEXIST
      else (case entry_of fs p of
              Inl e \<Rightarrow> Inl e
            | Inr q \<Rightarrow>
                (case node_at fs q of None \<Rightarrow> Inr ((q, Symlink target) # fs) | Some _ \<Rightarrow> Inl EEXIST)))"

definition os_unlink :: "filesystem \<Rightarrow> path \<Rightarrow> errno + filesystem" where
  "os_unlink fs p =
     (if p = [] then Inl EISDIR
      else (case entry_of fs p of
              Inl e \<Rightarrow> Inl e
            | Inr q \<Rightarrow>
                (case node_at fs q of
                   None \<Rightarrow> Inl ENOENT
                 | Some Dir \<Rightarrow> Inl EISDIR
                 | Some _ \<Rightarrow> Inr (filter (\<lambda>kv. fst kv \<noteq> q) fs))))"

text \<open>\<open>Path.mkdir(parents=False, exist_ok=...)\<close>: an error of \<open>os.mkdir\<close> is raised
  unless \<open>exist_ok\<close> holds and the path is a directory.\<close>

definition mkdir_plain :: "filesystem \<Rightarrow> path \<Rightarrow> bool \<Rightarrow> exn + filesystem" where
  "mkdir_plain fs p exist_ok =
     (case os_mkdir fs p of
        Inr fs' \<Rightarrow> Inr fs'
      | Inl e \<Rightarrow> if \<not> exist_ok \<or> \<not> is_dir fs p then Inl (OSError e p) else Inr fs)"

text \<open>\<open>Path.mkdir(parents=True, exist_ok=True)\<close>: on FileNotFoundError the parent is
  made first (the root is its own parent), then the directory itself. An exception
  comes with the file system as it is when it is raised, since parents may have been
  made by then.\<close>

function mkdir_parents :: "filesystem \<Rightarrow> path \<Rightarrow> exn \<times> filesystem + filesystem" where
  "mkdir_parents fs p =
     (case os_mkdir fs p of
        Inr fs' \<Rightarrow> Inr fs'
      | Inl e \<Rightarrow>
          if e = ENOENT then
            (if p = [] then Inl (OSError ENOENT p, fs)
             else (case mkdir_parents fs (butlast p) of
                     Inl x \<Rightarrow> Inl x
                   | Inr fs1 \<Rightarrow>
                       (case mkdir_plain fs1 p True of
                          Inl x \<Rightarrow> Inl (x, fs1)
                        | Inr fs2 \<Rightarrow> Inr fs2)))
          else if \<not> is_dir fs p then Inl (OSError e p, fs) else Inr fs)"
  by pat_completeness auto
termination
  by (relation "measure (\<lambda>(fs, p). length p)") auto

declare mkdir_parents.simps [simp del]

definition symlink_to :: "filesystem \<Rightarrow> path \<Rightarrow> path \<Rightarrow> exn + filesystem" where
  "symlink_to fs p target =
     (case os_symlink fs target p of
        Inl e \<Rightarrow> Inl (OSError2 e target p)
      | Inr fs' \<Rightarrow> Inr fs')"

definition unlink :: "filesystem \<Rightarrow> path \<Rightarrow> exn + filesystem" where
  "unlink fs p = (case os_unlink fs p of Inl e \<Rightarrow> Inl (OSError e p) | Inr fs' \<Rightarrow> Inr fs')"

text \<open>The names in a real directory, each once.\<close>

definition children :: "filesystem \<Rightarrow> path \<Rightarrow> string list" where
  "children fs d = remdups (map (last \<circ> fst) (filter (\<lambda>kv. fst kv \<noteq> [] \<and> butlast (fst kv) = d) fs))"

definition endswith :: "string \<Rightarrow> string \<Rightarrow> bool" where
  "endswith s suf = (length suf \<le> length s \<and> drop (length s - length suf) s = suf)"

text \<open>\<open>p.glob("*" + suf)\<close>: nothing when \<open>p\<close> is no directory; else the entries whose
  name ends in \<open>suf\<close>, whatever their type, in the order of the directory.\<close>

definition glob :: "filesystem \<Rightarrow> path \<Rightarrow> string \<Rightarrow> path list" where
  "glob fs p suf =
     (if \<not> is_dir fs p then []
      else (case walk fs MAXSYMLINKS [] p of
              Inl e \<Rightarrow> []
            | Inr d \<Rightarrow> map (\<lambda>n. p @ [n]) (filter (\<lambda>n. endswith n suf) (children fs d))))"

text \<open>\<open>p.iterdir()\<close> raises when \<open>p\<close> cannot be listed.\<close>

definition iterdir :: "filesystem \<Rightarrow> path \<Rightarrow> exn + path list" where
  "iterdir fs p =
     (case walk fs MAXSYMLINKS [] p of
        Inl e \<Rightarrow> Inl (OSError e p)
      | Inr d \<Rightarrow>
          (case node_at fs d of
             Some Dir \<Rightarrow> Inr (map (\<lambda>n. p @ [n]) (children fs d))
           | _ \<Rightarrow> Inl (OSError ENOTDIR p)))"

text \<open>\<open>PurePath.stem\<close>: the name up to its last dot, when that dot is neither the
  first nor the last character.\<close>

definition rfind_dot :: "string \<Rightarrow> nat option" where
  "rfind_dot s =
     (case filter (\<lambda>i. s ! i = CHR ''.'') (rev [0..<length s]) of [] \<Rightarrow> None | i # _ \<Rightarrow> Some i)"

definition stem :: "string \<Rightarrow> string" where
  "stem n =
     (case rfind_dot n of
        None \<Rightarrow> n
      | Some i \<Rightarrow> if 0 < i \<and> i < length n - 1 then take i n else n)"

section \<open>The artifact model\<close>

datatype ItemStatus = NOT_INSTALLED | INSTALLED | CONFLICT

record Item =
  name :: string
  category :: string
  source_path :: path
  dest_path :: path
  status :: ItemStatus
  selected :: bool
  error_message :: "string option"

text \<open>The constructor call \<open>Item(name=..., category=..., source_path=..., dest_path=...)\<close>
  with the defaults of the dataclass.\<close>

definition new_Item :: "string \<Rightarrow> string \<Rightarrow> path \<Rightarrow> path \<Rightarrow> Item" where
  "new_Item n c s d =
     \<lparr>name = n, category = c, source_path = s, dest_path = d,
      status = NOT_INSTALLED, selected = False, error_message = None\<rparr>"

text \<open>\<open>Item.check_status\<close>: the two calls of \<open>resolve\<close> are inside the \<open>try\<close>, the
  tests \<open>exists\<close> and \<open>is_symlink\<close> are not.\<close>

definition check_status :: "filesystem \<Rightarrow> Item \<Rightarrow> Item" where
  "check_status fs item =
     (if \<not> exists fs (dest_path item) \<and> \<not> is_symlink fs (dest_path item) then
        item\<lparr>status := NOT_INSTALLED, error_message := None\<rparr>
      else if is_symlink fs (dest_path item) then
        (case resolve fs (dest_path item) of
           Inl e \<Rightarrow> item\<lparr>status := CONFLICT, error_message := Some (str_exn e)\<rparr>
         | Inr target \<Rightarrow>
             (case resolve fs (source_path item) of
                Inl e \<Rightarrow> item\<lparr>status := CONFLICT, error_message := Some (str_exn e)\<rparr>
              | Inr expected \<Rightarrow>
                  if target = expected then
                    item\<lparr>status := INSTALLED, error_message := None\<rparr>
                  else
                    item\<lparr>status := CONFLICT,
                         error_message := Some (''Symlink points to '' @ str_path target
                                                @ '', expected '' @ str_path expected)\<rparr>))
      else
        item\<lparr>status := CONFLICT,
             error_message := Some (''Path exists but is not a symlink: ''
                                    @ str_path (dest_path item))\<rparr>)"

record Category =
  cat_name :: string
  items :: "Item list"

section \<open>Discovery\<close>

text \<open>The body of the loops of \<open>discover_items\<close>: build the item, classify it, and
  select it exactly when it is installed.\<close>

definition discovered :: "filesystem \<Rightarrow> string \<Rightarrow> string \<Rightarrow> path \<Rightarrow> path \<Rightarrow> Item" where
  "discovered fs n c s d =
     (let item = check_status fs (new_Item n c s d)
      in item\<lparr>selected := (status item = INSTALLED)\<rparr>)"

text \<open>The loop over \<open>sorted(src.glob("*.md"))\<close> for commands and agents: \<open>sorted\<close>
  compares the paths, component by component.\<close>

definition leaf_items :: "filesystem \<Rightarrow> string \<Rightarrow> path \<Rightarrow> path \<Rightarrow> Item list" where
  "leaf_items fs c src dest =
     map (\<lambda>f. discovered fs (stem (last f)) c f (dest @ [last f])) (sort (glob fs src ''.md''))"

text \<open>The loop over \<open>sorted(skills_src.iterdir())\<close>, given the listing.\<close>

definition skill_items :: "filesystem \<Rightarrow> path list \<Rightarrow> path \<Rightarrow> Item list" where
  "skill_items fs ds dest =
     map (\<lambda>d. discovered fs (last d) ''skills'' d (dest @ [last d]))
         (filter (\<lambda>d. is_dir fs d \<and> exists fs (d @ [''SKILL.md''])) (sort ds))"

definition category_of :: "string \<Rightarrow> Item list \<Rightarrow> Category list" where
  "category_of c xs = (if xs \<noteq> [] then [\<lparr>cat_name = c, items = xs\<rparr>] else [])"

text \<open>\<open>discover_items\<close>. The only call that can raise is \<open>skills_src.iterdir()\<close>, when
  \<open>skills\<close> exists and is no directory; the exception leaves the function.\<close>

definition discover_items :: "filesystem \<Rightarrow> path \<Rightarrow> path \<Rightarrow> exn + Category list" where
  "discover_items fs source_dir claude_dir =
     (let commands =
            (if exists fs (source_dir @ [''commands''])
             then category_of ''commands''
                    (leaf_items fs ''commands'' (source_dir @ [''commands''])
                                                 (claude_dir @ [''commands'']))
             else []);
          agents =
            (if exists fs (source_dir @ [''agents''])
             then category_of ''agents''
                    (leaf_items fs ''agents'' (source_dir @ [''agents''])
                                               (claude_dir @ [''agents'']))
             else [])
      in if exists fs (source_dir @ [''skills'']) then
           (case iterdir fs (source_dir @ [''skills'']) of
              Inl e \<Rightarrow> Inl e
            | Inr ds \<Rightarrow>
                Inr (commands
                     @ category_of ''skills'' (skill_items fs ds (claude_dir @ [''skills'']))
                     @ agents))
         else Inr (commands @ agents))"

section \<open>The reconciler\<close>

text \<open>A result holds the item as it is when the result is made.\<close>

record OperationResult =
  op_item :: Item
  action :: string
  success :: bool
  message :: string

text \<open>\<open>_install_item\<close> (an Isabelle name cannot start with an underscore). Every
  exception raised inside the \<open>try\<close> becomes a failed result with \<open>str(e)\<close>; the file
  system is then as the failing call left it.\<close>

definition install_item :: "filesystem \<Rightarrow> Item \<Rightarrow> path \<Rightarrow> filesystem \<times> OperationResult" where
  "install_item fs item dest_dir =
     (case mkdir_parents fs dest_dir of
        Inl (e, fs1) \<Rightarrow>
          (fs1, \<lparr>op_item = item, action = ''install'', success = False, message = str_exn e\<rparr>)
      | Inr fs1 \<Rightarrow>
          if exists fs1 (dest_path item) \<or> is_symlink fs1 (dest_path item) then
            (fs1, \<lparr>op_item = item, action = ''install'', success = False,
                   message = ''Destination already exists: '' @ str_path (dest_path item)\<rparr>)
          else
            (case symlink_to fs1 (dest_path item) (source_path item) of
               Inl e \<Rightarrow>
                 (fs1, \<lparr>op_item = item, action = ''install'', success = False,
                        message = str_exn e\<rparr>)
             | Inr fs2 \<Rightarrow>
                 (fs2, \<lparr>op_item = item, action = ''install'', success = True,
                        message = ''Created symlink: '' @ str_path (dest_path item)
                                  @ '' -> '' @ str_path (source_path item)\<rparr>)))"

text \<open>\<open>_uninstall_item\<close>.\<close>

definition uninstall_item :: "filesystem \<Rightarrow> Item \<Rightarrow> filesystem \<times> OperationResult" where
  "uninstall_item fs item =
     (if \<not> is_symlink fs (dest_path item) then
        (fs, \<lparr>op_item = item, action = ''uninstall'', success = False,
              message = ''Not a symlink: '' @ str_path (dest_path item)\<rparr>)
      else
        (case resolve fs (dest_path item) of
           Inl e \<Rightarrow>
             (fs, \<lparr>op_item = item, action = ''uninstall'', success = False,
                   message = str_exn e\<rparr>)
         | Inr target \<Rightarrow>
             (case resolve fs (source_path item) of
                Inl e \<Rightarrow>
                  (fs, \<lparr>op_item = item, action = ''uninstall'', success = False,
                        message = str_exn e\<rparr>)
              | Inr expected \<Rightarrow>
                  if target \<noteq> expected then
                    (fs, \<lparr>op_item = item, action = ''uninstall'', success = False,
                          message = ''Symlink points elsewhere: '' @ str_path target\<rparr>)
                  else
                    (case unlink fs (dest_path item) of
                       Inl e \<Rightarrow>
                         (fs, \<lparr>op_item = item, action = ''uninstall'', success = False,
                               message = str_exn e\<rparr>)
                     | Inr fs' \<Rightarrow>
                         (fs', \<lparr>op_item = item, action = ''uninstall'', success = True,
                                message = ''Removed symlink: ''
                                          @ str_path (dest_path item)\<rparr>)))))"

text \<open>An f-string prints a missing \<open>error_message\<close> as \<open>None\<close>.\<close>

definition str_opt :: "string option \<Rightarrow> string" where
  "str_opt m = (case m of None \<Rightarrow> ''None'' | Some s \<Rightarrow> s)"

text \<open>The body of the inner loop of \<open>apply_changes\<close>, with its four branches in the
  order of the source; it returns the file system and the results it appended.\<close>

definition apply_item :: "filesystem \<Rightarrow> path \<Rightarrow> Item \<Rightarrow> filesystem \<times> OperationResult list" where
  "apply_item fs dest_dir item =
     (if selected item \<and> status item \<noteq> INSTALLED then
        (let (fs', r) = install_item fs item dest_dir in (fs', [r]))
      else if \<not> selected item \<and> status item = INSTALLED then
        (let (fs', r) = uninstall_item fs item in (fs', [r]))
      else if selected item \<and> status item = CONFLICT then
        (fs, [\<lparr>op_item = item, action = ''install'', success = False,
               message = ''Cannot install: '' @ str_opt (error_message item)\<rparr>])
      else if \<not> selected item \<and> status item = CONFLICT then
        (fs, [\<lparr>op_item = item, action = ''uninstall'', success = False,
               message = ''Cannot uninstall: '' @ str_opt (error_message item)\<rparr>])
      else (fs, []))"

fun apply_items :: "filesystem \<Rightarrow> path \<Rightarrow> Item list \<Rightarrow> filesystem \<times> OperationResult list" where
  "apply_items fs dest_dir [] = (fs, [])"
| "apply_items fs dest_dir (item # rest) =
     (let (fs1, rs1) = apply_item fs dest_dir item;
          (fs2, rs2) = apply_items fs1 dest_dir rest
      in (fs2, rs1 @ rs2))"

text \<open>The outer loop: the destination directory is chosen by the name of the
  category, and a category with another name than the three is skipped.\<close>

fun apply_categories ::
  "filesystem \<Rightarrow> path \<Rightarrow> Category list \<Rightarrow> filesystem \<times> OperationResult list" where
  "apply_categories fs claude_dir [] = (fs, [])"
| "apply_categories fs claude_dir (c # cs) =
     (case (if cat_name c = ''commands'' then Some (claude_dir @ [''commands''])
            else if cat_name c = ''skills'' then Some (claude_dir @ [''skills''])
            else if cat_name c = ''agents'' then Some (claude_dir @ [''agents''])
            else None) of
        None \<Rightarrow> apply_categories fs claude_dir cs
      | Some dest_dir \<Rightarrow>
          (let (fs1, rs1) = apply_items fs dest_dir (items c);
               (fs2, rs2) = apply_categories fs1 claude_dir cs
           in (fs2, rs1 @ rs2)))"

text \<open>The refresh after the batch: classify again, select what is installed.\<close>

definition refresh :: "filesystem \<Rightarrow> Category list \<Rightarrow> Category list" where
  "refresh fs cats =
     map (\<lambda>c. c\<lparr>items :=
                  map (\<lambda>i. (check_status fs i)\<lparr>selected := (status (check_status fs i) = INSTALLED)\<rparr>)
                      (items c)\<rparr>) cats"

text \<open>\<open>apply_changes\<close>: the new file system, the results shown, the refreshed
  categories.\<close>

definition apply_changes ::
  "filesystem \<Rightarrow> path \<Rightarrow> Category list \<Rightarrow> filesystem \<times> OperationResult list \<times> Category list" where
  "apply_changes fs claude_dir cats =
     (let (fs', results) = apply_categories fs claude_dir cats
      in (fs', results, refresh fs' cats))"

section \<open>Example file systems\<close>

text \<open>The artifact \<open>commands/a.md\<close> of the source tree \<open>/s\<close>, to be linked under \<open>/c\<close>.\<close>

definition ex_item :: Item where
  "ex_item =
     new_Item ''a'' ''commands'' [''s'', ''commands'', ''a.md''] [''c'', ''commands'', ''a.md'']"

text \<open>The source tree with an empty \<open>/c\<close>.\<close>

definition fs_fresh :: filesystem where
  "fs_fresh =
     [([''s''], Dir), ([''s'', ''commands''], Dir),
      ([''s'', ''commands'', ''a.md''], File ''text''), ([''c''], Dir)]"

text \<open>The artifact installed.\<close>

definition fs_linked :: filesystem where
  "fs_linked =
     [([''s''], Dir), ([''s'', ''commands''], Dir),
      ([''s'', ''commands'', ''a.md''], File ''text''),
      ([''c''], Dir), ([''c'', ''commands''], Dir),
      ([''c'', ''commands'', ''a.md''], Symlink [''s'', ''commands'', ''a.md''])]"

text \<open>A regular file where the link should be.\<close>

definition fs_occupied :: filesystem where
  "fs_occupied =
     [([''s''], Dir), ([''s'', ''commands''], Dir),
      ([''s'', ''commands'', ''a.md''], File ''text''),
      ([''c''], Dir), ([''c'', ''commands''], Dir),
      ([''c'', ''commands'', ''a.md''], File ''mine'')]"

text \<open>A link to another file where the link should be.\<close>

definition fs_elsewhere :: filesystem where
  "fs_elsewhere =
     [([''s''], Dir), ([''s'', ''commands''], Dir),
      ([''s'', ''commands'', ''a.md''], File ''text''),
      ([''tmp''], Dir), ([''tmp'', ''other''], File ''other''),
      ([''c''], Dir), ([''c'', ''commands''], Dir),
      ([''c'', ''commands'', ''a.md''], Symlink [''tmp'', ''other''])]"

text \<open>The link is in place and the source file is gone: the link dangles.\<close>

definition fs_dangling :: filesystem where
  "fs_dangling =
     [([''s''], Dir), ([''s'', ''commands''], Dir),
      ([''c''], Dir), ([''c'', ''commands''], Dir),
      ([''c'', ''commands'', ''a.md''], Symlink [''s'', ''commands'', ''a.md''])]"

text \<open>A regular file where the category directory should be.\<close>

definition fs_blocked :: filesystem where
  "fs_blocked =
     [([''s''], Dir), ([''s'', ''commands''], Dir),
      ([''s'', ''commands'', ''a.md''], File ''text''),
      ([''c''], Dir), ([''c'', ''commands''], File ''notes'')]"

text \<open>Two commands, \<open>a.md\<close> and \<open>a-b.md\<close>.\<close>

definition fs_hyphen :: filesystem where
  "fs_hyphen =
     [([''s''], Dir), ([''s'', ''commands''], Dir),
      ([''s'', ''commands'', ''a.md''], File ''one''),
      ([''s'', ''commands'', ''a-b.md''], File ''two''), ([''c''], Dir)]"

text \<open>The artifact as \<open>discover_items\<close> classifies it with the regular file in the
  way, then selected by the user.\<close>

definition ex_conflict :: Item where
  "ex_conflict = (check_status fs_occupied ex_item)\<lparr>selected := True\<rparr>"

text \<open>A link to a file that is not there.\<close>

definition fs_broken :: filesystem where
  "fs_broken =
     [([''s''], Dir), ([''s'', ''commands''], Dir),
      ([''s'', ''commands'', ''a.md''], File ''text''), ([''tmp''], Dir),
      ([''c''], Dir), ([''c'', ''commands''], Dir),
      ([''c'', ''commands'', ''a.md''], Symlink [''tmp'', ''gone''])]"

text \<open>A link to itself.\<close>

definition fs_loop :: filesystem where
  "fs_loop =
     [([''s''], Dir), ([''s'', ''commands''], Dir),
      ([''s'', ''commands'', ''a.md''], File ''text''),
      ([''c''], Dir), ([''c'', ''commands''], Dir),
      ([''c'', ''commands'', ''a.md''], Symlink [''c'', ''commands'', ''a.md''])]"

text \<open>What \<open>discover_items\<close> returns for \<open>fs_hyphen\<close>.\<close>

definition hyphen_category :: Category where
  "hyphen_category =
     \<lparr>cat_name = ''commands'',
      items =
        [\<lparr>name = ''a-b'', category = ''commands'',
          source_path = [''s'', ''commands'', ''a-b.md''],
          dest_path = [''c'', ''commands'', ''a-b.md''],
          status = NOT_INSTALLED, selected = False, error_message = None\<rparr>,
         \<lparr>name = ''a'', category = ''commands'',
          source_path = [''s'', ''commands'', ''a.md''],
          dest_path = [''c'', ''commands'', ''a.md''],
          status = NOT_INSTALLED, selected = False, error_message = None\<rparr>]\<rparr>"

text \<open>A source tree with nothing to install: \<open>commands\<close> holds no \<open>.md\<close> file, the
  directory under \<open>skills\<close> has no \<open>SKILL.md\<close>, and there is no \<open>agents\<close>.\<close>

definition fs_sparse :: filesystem where
  "fs_sparse =
     [([''s''], Dir), ([''s'', ''commands''], Dir),
      ([''s'', ''commands'', ''README.txt''], File ''read me''),
      ([''s'', ''skills''], Dir), ([''s'', ''skills'', ''draft''], Dir),
      ([''s'', ''skills'', ''draft'', ''notes.md''], File ''later''), ([''c''], Dir)]"

text \<open>A regular file named \<open>skills\<close> in the source tree.\<close>

definition fs_skills_file :: filesystem where
  "fs_skills_file =
     [([''s''], Dir), ([''s'', ''commands''], Dir),
      ([''s'', ''commands'', ''a.md''], File ''text''),
      ([''s'', ''skills''], File ''a list of skills''), ([''c''], Dir)]"

section \<open>Properties\<close>

subsection \<open>Path resolution\<close>

lemma node_at_mono:
  "map_of fs \<subseteq>\<^sub>m map_of fs' \<Longrightarrow> node_at fs p = Some n \<Longrightarrow> node_at fs' p = Some n"
  by (auto simp: node_at_def map_le_def dom_def split: if_splits)

text \<open>A walk that succeeds reads only entries that are there, so it succeeds in every
  larger file system, at the same place.\<close>

lemma walk_mono:
  "map_of fs \<subseteq>\<^sub>m map_of fs' \<Longrightarrow> walk fs k cur p = Inr r \<Longrightarrow> walk fs' k cur p = Inr r"
proof (induction fs k cur p rule: walk.induct)
  case (1 fs k cur)
  then show ?case by simp
next
  case (2 fs k cur c rest)
  from "2.prems"(2) obtain "node_at fs cur = Some Dir"
    by (auto split: option.splits node.splits)
  moreover from "2.prems"(2) calculation obtain n where n: "node_at fs (cur @ [c]) = Some n"
    by (auto split: option.splits node.splits)
  ultimately have a: "node_at fs' cur = Some Dir" and b: "node_at fs' (cur @ [c]) = Some n"
    using node_at_mono[OF "2.prems"(1)] by blast+
  show ?case
    using 2 a b n \<open>node_at fs cur = Some Dir\<close>
    by (cases n; cases k) auto
qed

text \<open>A walk to \<open>xs @ [m]\<close> goes through the directory that \<open>xs\<close> names.\<close>

lemma walk_snoc:
  "walk fs k cur (xs @ [m]) = Inr r \<Longrightarrow>
   \<exists>d. walk fs k cur xs = Inr d \<and> node_at fs d = Some Dir \<and> node_at fs (d @ [m]) \<noteq> None"
proof (induction fs k cur xs rule: walk.induct)
  case (1 fs k cur)
  then show ?case by (auto split: option.splits node.splits)
next
  case (2 fs k cur c rest)
  then show ?case
    by (auto split: option.splits node.splits nat.splits)
qed

lemma walk_snoc_fwd:
  "walk fs k cur xs = Inr d \<Longrightarrow> node_at fs d = Some Dir \<Longrightarrow> node_at fs (d @ [m]) = Some n \<Longrightarrow>
   (\<forall>t. n \<noteq> Symlink t) \<Longrightarrow> walk fs k cur (xs @ [m]) = Inr (d @ [m])"
proof (induction fs k cur xs rule: walk.induct)
  case (1 fs k cur)
  then show ?case by (cases n) auto
next
  case (2 fs k cur c rest)
  then show ?case
    by (auto split: option.splits node.splits nat.splits)
qed

lemma path_snoc: "p \<noteq> [] \<Longrightarrow> butlast p @ [last p] = p"
  by simp

lemma entry_of_mono:
  "map_of fs \<subseteq>\<^sub>m map_of fs' \<Longrightarrow> entry_of fs p = Inr q \<Longrightarrow> entry_of fs' p = Inr q"
proof -
  assume le: "map_of fs \<subseteq>\<^sub>m map_of fs'" and e: "entry_of fs p = Inr q"
  from e obtain d where d: "walk fs MAXSYMLINKS [] (butlast p) = Inr d"
    "node_at fs d = Some Dir" "q = d @ [last p]"
    by (auto simp: entry_of_def split: sum.splits option.splits node.splits)
  from walk_mono[OF le d(1)] node_at_mono[OF le d(2)] d(3) show ?thesis
    by (simp add: entry_of_def)
qed

lemma entry_of_nonempty: "entry_of fs p = Inr q \<Longrightarrow> q \<noteq> []"
  by (auto simp: entry_of_def split: sum.splits option.splits node.splits)

lemma is_dir_walk:
  "is_dir fs p \<longleftrightarrow> (\<exists>r. walk fs MAXSYMLINKS [] p = Inr r \<and> node_at fs r = Some Dir)"
  by (auto simp: is_dir_def stat_def split: sum.splits option.splits node.splits)

lemma is_dir_mono: "map_of fs \<subseteq>\<^sub>m map_of fs' \<Longrightarrow> is_dir fs p \<Longrightarrow> is_dir fs' p"
  unfolding is_dir_walk by (blast dest: walk_mono node_at_mono)

lemma exists_walk:
  "exists fs p \<longleftrightarrow> (\<exists>r n. walk fs MAXSYMLINKS [] p = Inr r \<and> node_at fs r = Some n)"
  by (auto simp: exists_def stat_def split: sum.splits option.splits)

lemma exists_mono: "map_of fs \<subseteq>\<^sub>m map_of fs' \<Longrightarrow> exists fs p \<Longrightarrow> exists fs' p"
  unfolding exists_walk by (blast dest: walk_mono node_at_mono)

lemma is_symlink_entry:
  "is_symlink fs p \<Longrightarrow> p \<noteq> [] \<and> (\<exists>q t. entry_of fs p = Inr q \<and> node_at fs q = Some (Symlink t))"
  by (auto simp: is_symlink_def lstat_def split: if_splits sum.splits option.splits node.splits)

lemma is_dir_entry:
  assumes "is_dir fs p" "p \<noteq> []"
  shows "\<exists>q. entry_of fs p = Inr q \<and> node_at fs q \<noteq> None"
proof -
  from assms(1) obtain r where "walk fs MAXSYMLINKS [] p = Inr r"
    by (auto simp: is_dir_def stat_def split: sum.splits)
  then have "walk fs MAXSYMLINKS [] (butlast p @ [last p]) = Inr r"
    using assms(2) by simp
  from walk_snoc[OF this] show ?thesis
    by (auto simp: entry_of_def)
qed

lemma parent_is_dir:
  assumes "exists fs (d @ [n]) \<or> is_symlink fs (d @ [n])"
  shows "is_dir fs d"
  using assms
proof
  assume "exists fs (d @ [n])"
  then obtain r where "walk fs MAXSYMLINKS [] (d @ [n]) = Inr r"
    by (auto simp: exists_def stat_def split: sum.splits)
  from walk_snoc[OF this] show ?thesis
    by (auto simp: is_dir_def stat_def)
next
  assume "is_symlink fs (d @ [n])"
  from is_symlink_entry[OF this] show ?thesis
    by (auto simp: entry_of_def is_dir_def stat_def split: sum.splits option.splits node.splits)
qed

subsection \<open>The system calls\<close>

text \<open>\<open>mkdir\<close> and \<open>symlink_to\<close> add an entry and touch nothing that is there;
  \<open>unlink\<close> removes one entry and touches nothing else.\<close>

lemma cons_le: "node_at fs q = None \<Longrightarrow> map_of fs \<subseteq>\<^sub>m map_of ((q, n) # fs)"
  by (auto simp: node_at_def map_le_def dom_def split: if_splits)

lemma map_of_remove:
  "map_of (filter (\<lambda>kv. fst kv \<noteq> q) fs) p = (if p = q then None else map_of fs p)"
  by (induction fs) auto

lemma remove_le: "map_of (filter (\<lambda>kv. fst kv \<noteq> q) fs) \<subseteq>\<^sub>m map_of fs"
  by (auto simp: map_le_def map_of_remove dom_def)

lemma unlink_symlink:
  assumes "is_symlink fs p"
  shows "\<exists>q. entry_of fs p = Inr q \<and> unlink fs p = Inr (filter (\<lambda>kv. fst kv \<noteq> q) fs)"
  using is_symlink_entry[OF assms] by (auto simp: unlink_def os_unlink_def)

lemma unlink_gone:
  assumes "unlink fs p = Inr fs'"
  shows "(\<exists>e. lstat fs' p = Inl e) \<and> map_of fs' \<subseteq>\<^sub>m map_of fs"
proof -
  from assms obtain q where q: "p \<noteq> []" "entry_of fs p = Inr q" "fs' = filter (\<lambda>kv. fst kv \<noteq> q) fs"
    by (auto simp: unlink_def os_unlink_def split: if_splits sum.splits option.splits node.splits)
  have le: "map_of fs' \<subseteq>\<^sub>m map_of fs"
    using q(3) remove_le by simp
  have "\<exists>e. lstat fs' p = Inl e"
  proof (cases "entry_of fs' p")
    case (Inl e)
    then show ?thesis using q(1) by (simp add: lstat_def)
  next
    case (Inr q')
    with entry_of_mono[OF le Inr] q(2) have "q' = q" by simp
    moreover have "node_at fs' q = None"
      using entry_of_nonempty[OF q(2)] q(3) by (simp add: node_at_def map_of_remove)
    ultimately show ?thesis using Inr q(1) by (simp add: lstat_def)
  qed
  with le show ?thesis by simp
qed

lemma os_mkdir_is_dir:
  assumes "os_mkdir fs p = Inr fs'"
  shows "is_dir fs' p \<and> map_of fs \<subseteq>\<^sub>m map_of fs'"
proof -
  from assms obtain q where q: "p \<noteq> []" "entry_of fs p = Inr q" "node_at fs q = None"
    "fs' = (q, Dir) # fs"
    by (auto simp: os_mkdir_def split: if_splits sum.splits option.splits)
  from q(2) obtain d where d: "walk fs MAXSYMLINKS [] (butlast p) = Inr d"
    "node_at fs d = Some Dir" "q = d @ [last p]"
    by (auto simp: entry_of_def split: sum.splits option.splits node.splits)
  have le: "map_of fs \<subseteq>\<^sub>m map_of fs'"
    using q(3,4) cons_le by simp
  have "node_at fs' q = Some Dir"
    using q(4) d(3) by (simp add: node_at_def)
  with walk_snoc_fwd[OF walk_mono[OF le d(1)] node_at_mono[OF le d(2)], of "last p" Dir] d(3)
  have "walk fs' MAXSYMLINKS [] (butlast p @ [last p]) = Inr q"
    by simp
  then have "walk fs' MAXSYMLINKS [] p = Inr q"
    using q(1) by simp
  with \<open>node_at fs' q = Some Dir\<close> have "is_dir fs' p"
    by (simp add: is_dir_def stat_def)
  with le show ?thesis by simp
qed

lemma mkdir_plain_ok:
  "mkdir_plain fs p True = Inr fs' \<Longrightarrow> is_dir fs' p \<and> map_of fs \<subseteq>\<^sub>m map_of fs'"
  by (auto simp: mkdir_plain_def split: sum.splits if_splits dest: os_mkdir_is_dir)

lemma mkdir_parents_ok:
  "(mkdir_parents fs p = Inr fs' \<longrightarrow> is_dir fs' p \<and> map_of fs \<subseteq>\<^sub>m map_of fs')
   \<and> (mkdir_parents fs p = Inl (e, fs') \<longrightarrow> map_of fs \<subseteq>\<^sub>m map_of fs')"
proof (induction fs p arbitrary: fs' e rule: mkdir_parents.induct)
  case (1 fs p)
  show ?case
  proof (cases "os_mkdir fs p")
    case (Inr fs2)
    then show ?thesis
      using os_mkdir_is_dir[OF Inr] by (auto simp: mkdir_parents.simps[of fs p])
  next
    case (Inl err)
    show ?thesis
    proof (cases "err = ENOENT \<and> p \<noteq> []")
      case False
      then show ?thesis
        using Inl by (auto simp: mkdir_parents.simps[of fs p] split: if_splits)
    next
      case True
      show ?thesis
      proof (cases "mkdir_parents fs (butlast p)")
        case l: (Inl x)
        obtain e1 f1 where x: "x = (e1, f1)" by (cases x)
        from "1.IH"[OF Inl, of f1 e1] True l x have "map_of fs \<subseteq>\<^sub>m map_of f1" by simp
        then show ?thesis
          using Inl True l x by (auto simp: mkdir_parents.simps[of fs p])
      next
        case r: (Inr fs1)
        from "1.IH"[OF Inl, of fs1] True r have le1: "map_of fs \<subseteq>\<^sub>m map_of fs1" by simp
        show ?thesis
          using Inl True r le1 mkdir_plain_ok[of fs1 p]
          by (auto simp: mkdir_parents.simps[of fs p] split: sum.splits intro: map_le_trans)
      qed
    qed
  qed
qed

lemma mkdir_parents_noop:
  assumes "is_dir fs p"
  shows "mkdir_parents fs p = Inr fs"
proof (cases "p = []")
  case True
  then show ?thesis using assms by (simp add: mkdir_parents.simps[of fs "[]"] os_mkdir_def)
next
  case False
  from is_dir_entry[OF assms False] have "os_mkdir fs p = Inl EEXIST"
    using False by (auto simp: os_mkdir_def)
  then show ?thesis using assms by (simp add: mkdir_parents.simps[of fs p])
qed

lemma os_mkdir_adds_dir:
  "os_mkdir fs p = Inr fs' \<Longrightarrow> map_of fs' q = Some n \<Longrightarrow> map_of fs q = Some n \<or> n = Dir"
  by (auto simp: os_mkdir_def split: if_splits sum.splits option.splits)

lemma mkdir_plain_adds_dir:
  "mkdir_plain fs p b = Inr fs' \<Longrightarrow> map_of fs' q = Some n \<Longrightarrow> map_of fs q = Some n \<or> n = Dir"
  by (auto simp: mkdir_plain_def split: sum.splits if_splits dest: os_mkdir_adds_dir)

lemma is_dir_parent:
  assumes "is_dir fs p" "p \<noteq> []"
  shows "is_dir fs (butlast p)"
proof -
  from assms(2) have "p = butlast p @ [last p]" by simp
  with parent_is_dir[of fs "butlast p" "last p"] assms(1) show ?thesis
    by (auto simp: is_dir_def exists_def split: sum.splits)
qed

text \<open>When \<open>mkdir\<close> with parents raises, the path is no directory; whether it raises or
  returns, every entry it has added is a directory.\<close>

lemma mkdir_parents_adds_dirs:
  "(mkdir_parents fs p = Inr fs' \<or> mkdir_parents fs p = Inl (e, fs')) \<Longrightarrow>
   map_of fs' q = Some n \<Longrightarrow> map_of fs q = Some n \<or> n = Dir"
proof (induction fs p arbitrary: fs' e n rule: mkdir_parents.induct)
  case (1 fs p)
  show ?case
  proof (cases "os_mkdir fs p")
    case (Inr fs2)
    with "1.prems" os_mkdir_adds_dir[OF Inr, of q n] show ?thesis
      by (auto simp: mkdir_parents.simps[of fs p])
  next
    case (Inl err)
    show ?thesis
    proof (cases "err = ENOENT \<and> p \<noteq> []")
      case False
      with "1.prems" Inl show ?thesis
        by (auto simp: mkdir_parents.simps[of fs p] split: if_splits)
    next
      case True
      show ?thesis
      proof (cases "mkdir_parents fs (butlast p)")
        case l: (Inl x)
        obtain e1 f1 where x: "x = (e1, f1)" by (cases x)
        with "1.prems"(1) Inl True l have "fs' = f1"
          by (auto simp: mkdir_parents.simps[of fs p])
        with "1.IH"[OF Inl, of f1 e1] True l x "1.prems"(2) show ?thesis
          by simp
      next
        case r: (Inr fs1)
        have ih: "map_of fs1 q = Some m \<Longrightarrow> map_of fs q = Some m \<or> m = Dir" for m
          using "1.IH"[OF Inl, of fs1] True r by simp
        from "1.prems"(1) Inl True r
        consider "fs' = fs1" | "mkdir_plain fs1 p True = Inr fs'"
          by (auto simp: mkdir_parents.simps[of fs p] split: sum.splits)
        then show ?thesis
        proof cases
          case 1
          with ih "1.prems"(2) show ?thesis by simp
        next
          case 2
          from mkdir_plain_adds_dir[OF 2 "1.prems"(2)] ih show ?thesis by auto
        qed
      qed
    qed
  qed
qed

lemma mkdir_parents_fails:
  "mkdir_parents fs p = Inl (e, fs') \<Longrightarrow> \<not> is_dir fs' p"
proof (induction fs p arbitrary: fs' e rule: mkdir_parents.induct)
  case (1 fs p)
  from "1.prems" obtain err where Inl: "os_mkdir fs p = Inl err"
    by (cases "os_mkdir fs p") (auto simp: mkdir_parents.simps[of fs p])
  show ?case
  proof (cases "err = ENOENT \<and> p \<noteq> []")
    case False
    with "1.prems" Inl show ?thesis
      by (auto simp: mkdir_parents.simps[of fs p] os_mkdir_def split: if_splits)
  next
    case True
    show ?thesis
    proof (cases "mkdir_parents fs (butlast p)")
      case l: (Inl x)
      obtain e1 f1 where x: "x = (e1, f1)" by (cases x)
      with "1.prems" Inl True l have "fs' = f1"
        by (auto simp: mkdir_parents.simps[of fs p])
      with "1.IH"[OF Inl, of e1 f1] True l x have "\<not> is_dir fs' (butlast p)"
        by simp
      with is_dir_parent[of fs' p] True show ?thesis by blast
    next
      case r: (Inr fs1)
      with "1.prems" Inl True have "fs' = fs1" "\<exists>x. mkdir_plain fs1 p True = Inl x"
        by (auto simp: mkdir_parents.simps[of fs p] split: sum.splits)
      then show ?thesis
        by (auto simp: mkdir_plain_def split: sum.splits if_splits)
    qed
  qed
qed

lemma symlink_to_le: "symlink_to fs p t = Inr fs' \<Longrightarrow> map_of fs \<subseteq>\<^sub>m map_of fs'"
  by (auto simp: symlink_to_def os_symlink_def split: if_splits sum.splits option.splits
           intro: cons_le)

lemma symlink_to_fresh:
  assumes "is_dir fs d" "\<not> exists fs (d @ [n])" "\<not> is_symlink fs (d @ [n])"
  shows "\<exists>fs'. symlink_to fs (d @ [n]) t = Inr fs' \<and> lstat fs' (d @ [n]) = Inr (Symlink t)
               \<and> map_of fs \<subseteq>\<^sub>m map_of fs'"
proof -
  from assms(1) obtain r where r: "walk fs MAXSYMLINKS [] d = Inr r" "node_at fs r = Some Dir"
    unfolding is_dir_walk by blast
  then have e: "entry_of fs (d @ [n]) = Inr (r @ [n])"
    by (simp add: entry_of_def)
  have none: "node_at fs (r @ [n]) = None"
  proof (cases "node_at fs (r @ [n])")
    case None
    then show ?thesis .
  next
    case (Some x)
    show ?thesis
    proof (cases "\<exists>t. x = Symlink t")
      case True
      with e Some have "is_symlink fs (d @ [n])"
        by (auto simp: is_symlink_def lstat_def)
      with assms(3) show ?thesis by simp
    next
      case False
      with walk_snoc_fwd[OF r Some] Some have "exists fs (d @ [n])"
        unfolding exists_walk by blast
      with assms(2) show ?thesis by simp
    qed
  qed
  let ?fs' = "(r @ [n], Symlink t) # fs"
  have le: "map_of fs \<subseteq>\<^sub>m map_of ?fs'"
    using none by (rule cons_le)
  have s: "symlink_to fs (d @ [n]) t = Inr ?fs'"
    using e none by (simp add: symlink_to_def os_symlink_def)
  have "lstat ?fs' (d @ [n]) = Inr (Symlink t)"
    using entry_of_mono[OF le e] by (simp add: lstat_def node_at_def)
  with s le show ?thesis by blast
qed

subsection \<open>The status classifier\<close>

text \<open>
  C3. \<open>check_status\<close> reports INSTALLED exactly when \<open>dest_path\<close> is a symbolic link
  and \<open>resolve\<close> gives the same path for \<open>dest_path\<close> and for \<open>source_path\<close>; a
  \<open>dest_path\<close> that neither exists nor is a symbolic link is NOT_INSTALLED; a
  \<open>dest_path\<close> that exists or is a symbolic link, and does not meet the condition of
  INSTALLED (another target, no link, or a resolution that raises), is CONFLICT.
\<close>

theorem check_status_classifies:
  "(status (check_status fs item) = INSTALLED \<longleftrightarrow>
      is_symlink fs (dest_path item) \<and>
      (\<exists>t. resolve fs (dest_path item) = Inr t \<and> resolve fs (source_path item) = Inr t))
   \<and> (\<not> exists fs (dest_path item) \<and> \<not> is_symlink fs (dest_path item) \<longrightarrow>
        status (check_status fs item) = NOT_INSTALLED)
   \<and> ((exists fs (dest_path item) \<or> is_symlink fs (dest_path item)) \<and>
        \<not> (is_symlink fs (dest_path item) \<and>
           (\<exists>t. resolve fs (dest_path item) = Inr t \<and> resolve fs (source_path item) = Inr t)) \<longrightarrow>
        status (check_status fs item) = CONFLICT)"
  by (auto simp: check_status_def split: sum.splits)

text \<open>The three verdicts, on the installed link, on the empty destination and on the
  regular file in the way.\<close>

theorem check_status_classifies_witness:
  "(is_symlink fs_linked (dest_path ex_item)
    \<and> resolve fs_linked (dest_path ex_item) = Inr [''s'', ''commands'', ''a.md'']
    \<and> resolve fs_linked (source_path ex_item) = Inr [''s'', ''commands'', ''a.md'']
    \<and> status (check_status fs_linked ex_item) = INSTALLED)
   \<and> (\<not> exists fs_fresh (dest_path ex_item) \<and> \<not> is_symlink fs_fresh (dest_path ex_item)
      \<and> status (check_status fs_fresh ex_item) = NOT_INSTALLED)
   \<and> (exists fs_occupied (dest_path ex_item) \<and> \<not> is_symlink fs_occupied (dest_path ex_item)
      \<and> status (check_status fs_occupied ex_item) = CONFLICT)"
proof -
  have a: "is_symlink fs_linked (dest_path ex_item)"
    by code_simp
  have b: "resolve fs_linked (dest_path ex_item) = Inr [''s'', ''commands'', ''a.md'']"
    by code_simp
  have c: "resolve fs_linked (source_path ex_item) = Inr [''s'', ''commands'', ''a.md'']"
    by code_simp
  have d: "\<not> exists fs_fresh (dest_path ex_item)" "\<not> is_symlink fs_fresh (dest_path ex_item)"
    by code_simp+
  have e: "exists fs_occupied (dest_path ex_item)" "\<not> is_symlink fs_occupied (dest_path ex_item)"
    by code_simp+
  show ?thesis
    using check_status_classifies[of fs_linked ex_item] check_status_classifies[of fs_fresh ex_item]
      check_status_classifies[of fs_occupied ex_item] a b c d e
    by blast
qed

text \<open>
  C10 as stated fails for a dangling link whose target is the source path: with the
  source file gone, \<open>resolve\<close> gives the same path for both and the verdict is INSTALLED.
\<close>

theorem dangling_link_counterexample:
  "is_symlink fs_dangling (dest_path ex_item) \<and> \<not> exists fs_dangling (dest_path ex_item)
   \<and> status (check_status fs_dangling ex_item) = INSTALLED
   \<and> error_message (check_status fs_dangling ex_item) = None"
  by code_simp

text \<open>
  C10, amended. When the tests \<open>exists\<close> and \<open>is_symlink\<close> of \<open>dest_path\<close> return and
  \<open>dest_path\<close> is a symbolic link, a dangling one in particular, the verdict of
  \<open>check_status\<close> is never NOT_INSTALLED; it is INSTALLED exactly when \<open>resolve\<close> gives
  the same path for \<open>dest_path\<close> and for \<open>source_path\<close>; when the two resolved paths
  differ it is CONFLICT with a message that names both; and an exception that \<open>resolve\<close>
  raises for either path is caught by the \<open>try\<close>: the verdict is CONFLICT with the text
  of the exception. Nothing is said of a call of \<open>exists\<close> or \<open>is_symlink\<close> that
  raises: these two are outside the \<open>try\<close>.
\<close>

theorem dangling_link_classified:
  assumes "is_symlink fs (dest_path item)"
  shows "status (check_status fs item) \<noteq> NOT_INSTALLED
    \<and> (status (check_status fs item) = INSTALLED \<longleftrightarrow>
         (\<exists>t. resolve fs (dest_path item) = Inr t \<and> resolve fs (source_path item) = Inr t))
    \<and> (\<forall>t e. resolve fs (dest_path item) = Inr t \<and> resolve fs (source_path item) = Inr e \<and> t \<noteq> e \<longrightarrow>
         status (check_status fs item) = CONFLICT
         \<and> error_message (check_status fs item) =
             Some (''Symlink points to '' @ str_path t @ '', expected '' @ str_path e))
    \<and> (\<forall>x. resolve fs (dest_path item) = Inl x
            \<or> (\<exists>t. resolve fs (dest_path item) = Inr t \<and> resolve fs (source_path item) = Inl x) \<longrightarrow>
         status (check_status fs item) = CONFLICT
         \<and> error_message (check_status fs item) = Some (str_exn x))"
  using assms by (auto simp: check_status_def split: sum.splits)

text \<open>A link to a missing file is CONFLICT and names both paths; a link to itself is
  CONFLICT with the text of the RuntimeError.\<close>

theorem dangling_link_classified_witness:
  "(is_symlink fs_broken (dest_path ex_item) \<and> \<not> exists fs_broken (dest_path ex_item)
    \<and> resolve fs_broken (dest_path ex_item) = Inr [''tmp'', ''gone'']
    \<and> resolve fs_broken (source_path ex_item) = Inr [''s'', ''commands'', ''a.md'']
    \<and> status (check_status fs_broken ex_item) = CONFLICT
    \<and> error_message (check_status fs_broken ex_item)
        = Some ''Symlink points to /tmp/gone, expected /s/commands/a.md'')
   \<and> (is_symlink fs_loop (dest_path ex_item) \<and> \<not> exists fs_loop (dest_path ex_item)
      \<and> resolve fs_loop (dest_path ex_item)
          = Inl (RuntimeError (''Symlink loop from '' @ repr ''/c/commands/a.md''))
      \<and> status (check_status fs_loop ex_item) = CONFLICT
      \<and> error_message (check_status fs_loop ex_item)
          = Some (''Symlink loop from '' @ repr ''/c/commands/a.md''))"
proof -
  have a: "is_symlink fs_broken (dest_path ex_item)" "\<not> exists fs_broken (dest_path ex_item)"
    "resolve fs_broken (dest_path ex_item) = Inr [''tmp'', ''gone'']"
    "resolve fs_broken (source_path ex_item) = Inr [''s'', ''commands'', ''a.md'']"
    by code_simp+
  have b: "is_symlink fs_loop (dest_path ex_item)" "\<not> exists fs_loop (dest_path ex_item)"
    "resolve fs_loop (dest_path ex_item)
          = Inl (RuntimeError (''Symlink loop from '' @ repr ''/c/commands/a.md''))"
    by code_simp+
  have s: "str_path [''tmp'', ''gone''] = ''/tmp/gone''"
    "str_path [''s'', ''commands'', ''a.md''] = ''/s/commands/a.md''"
    by code_simp+
  have ne: "[''tmp'', ''gone''] \<noteq> [''s'', ''commands'', ''a.md'']"
    by simp
  from dangling_link_classified[OF a(1)] a(3,4) ne s
  have w1: "status (check_status fs_broken ex_item) = CONFLICT
    \<and> error_message (check_status fs_broken ex_item)
        = Some ''Symlink points to /tmp/gone, expected /s/commands/a.md''"
    by simp
  from dangling_link_classified[OF b(1)] b(3)
  have w2: "status (check_status fs_loop ex_item) = CONFLICT
      \<and> error_message (check_status fs_loop ex_item)
          = Some (''Symlink loop from '' @ repr ''/c/commands/a.md'')"
    by simp
  from a b w1 w2 show ?thesis by blast
qed

subsection \<open>Install\<close>

lemma install_item_occupied:
  assumes "exists fs (dest_path item) \<or> is_symlink fs (dest_path item)"
    and "dest_path item = dest_dir @ [n]"
  shows "install_item fs item dest_dir =
           (fs, \<lparr>op_item = item, action = ''install'', success = False,
                 message = ''Destination already exists: '' @ str_path (dest_path item)\<rparr>)"
proof -
  have "is_dir fs dest_dir"
    using parent_is_dir[of fs dest_dir n] assms by simp
  then have "mkdir_parents fs dest_dir = Inr fs"
    by (rule mkdir_parents_noop)
  then show ?thesis
    using assms(1) by (auto simp: install_item_def)
qed

text \<open>\<open>_install_item\<close> adds entries and touches nothing that is there.\<close>

lemma install_item_le:
  assumes "install_item fs item d = (fs', r)"
  shows "map_of fs \<subseteq>\<^sub>m map_of fs'"
proof (cases "mkdir_parents fs d")
  case (Inl x)
  obtain e f where x: "x = (e, f)" by (cases x)
  with Inl assms mkdir_parents_ok[of fs d f e] show ?thesis
    by (simp add: install_item_def)
next
  case (Inr fs1)
  with mkdir_parents_ok[of fs d fs1] have le: "map_of fs \<subseteq>\<^sub>m map_of fs1" by simp
  show ?thesis
    using assms Inr le
    by (auto simp: install_item_def split: if_splits sum.splits
             dest: symlink_to_le intro: map_le_trans)
qed

lemma sublist_mid: "sublist b (a @ b @ c)"
  by (rule sublist_appendI)

lemma sublist_end: "sublist c (a @ b @ c)"
  using sublist_appendI[of c "a @ b" "[]"] by simp

text \<open>
  C4 as stated fails where the category directory cannot be made: with a regular file
  at \<open>/c/commands\<close>, \<open>dest_path\<close> neither exists nor is a symbolic link, and the
  procedure makes no link and reports the FileExistsError of \<open>mkdir\<close>.
\<close>

theorem install_blocked_counterexample:
  "\<not> exists fs_blocked (dest_path ex_item) \<and> \<not> is_symlink fs_blocked (dest_path ex_item)
   \<and> \<not> is_dir fs_blocked [''c'', ''commands'']
   \<and> install_item fs_blocked ex_item [''c'', ''commands''] =
       (fs_blocked, \<lparr>op_item = ex_item, action = ''install'', success = False,
                     message = ''[Errno 17] File exists: '' @ repr ''/c/commands''\<rparr>)"
  by code_simp

text \<open>
  C4, amended. \<open>_install_item\<close>, for an artifact whose \<open>dest_path\<close> lies in the
  category directory \<open>dest_dir\<close>, first makes \<open>dest_dir\<close> with its parents. When that
  raises (a path on the way is no directory), the result is a failure with the text of
  the exception, \<open>dest_dir\<close> is no directory, nothing that was there has been changed
  and nothing but directories has been added: no link is made. When it returns,
  \<open>dest_dir\<close> is a directory and nothing that was there has been changed; then, if
  \<open>dest_path\<close> exists or is a symbolic link, the procedure refuses with
  "Destination already exists" and changes nothing more; otherwise it makes a symbolic
  link at \<open>dest_path\<close> whose target is \<open>source_path\<close> and reports a success whose
  message holds both paths. If \<open>dest_path\<close> exists or is a symbolic link when the
  procedure starts, the file system is returned as it was.
\<close>

theorem install_item_cases:
  assumes "dest_path item = dest_dir @ [n]"
  shows
    "(\<forall>e fs1. mkdir_parents fs dest_dir = Inl (e, fs1) \<longrightarrow>
        install_item fs item dest_dir =
          (fs1, \<lparr>op_item = item, action = ''install'', success = False, message = str_exn e\<rparr>)
        \<and> \<not> is_dir fs1 dest_dir \<and> map_of fs \<subseteq>\<^sub>m map_of fs1
        \<and> (\<forall>q n. map_of fs1 q = Some n \<longrightarrow> map_of fs q = Some n \<or> n = Dir))
     \<and> (\<forall>fs1. mkdir_parents fs dest_dir = Inr fs1 \<longrightarrow>
          is_dir fs1 dest_dir \<and> map_of fs \<subseteq>\<^sub>m map_of fs1
          \<and> (exists fs1 (dest_path item) \<or> is_symlink fs1 (dest_path item) \<longrightarrow>
               install_item fs item dest_dir =
                 (fs1, \<lparr>op_item = item, action = ''install'', success = False,
                        message = ''Destination already exists: '' @ str_path (dest_path item)\<rparr>))
          \<and> (\<not> exists fs1 (dest_path item) \<and> \<not> is_symlink fs1 (dest_path item) \<longrightarrow>
               (\<exists>fs2 r. install_item fs item dest_dir = (fs2, r)
                  \<and> op_item r = item \<and> action r = ''install'' \<and> success r
                  \<and> message r = ''Created symlink: '' @ str_path (dest_path item)
                                 @ '' -> '' @ str_path (source_path item)
                  \<and> sublist (str_path (dest_path item)) (message r)
                  \<and> sublist (str_path (source_path item)) (message r)
                  \<and> lstat fs2 (dest_path item) = Inr (Symlink (source_path item))
                  \<and> map_of fs1 \<subseteq>\<^sub>m map_of fs2)))
     \<and> (exists fs (dest_path item) \<or> is_symlink fs (dest_path item) \<longrightarrow>
          install_item fs item dest_dir =
            (fs, \<lparr>op_item = item, action = ''install'', success = False,
                  message = ''Destination already exists: '' @ str_path (dest_path item)\<rparr>))"
proof -
  have failing: "install_item fs item dest_dir =
          (fs1, \<lparr>op_item = item, action = ''install'', success = False, message = str_exn e\<rparr>)
        \<and> \<not> is_dir fs1 dest_dir \<and> map_of fs \<subseteq>\<^sub>m map_of fs1
        \<and> (\<forall>q n. map_of fs1 q = Some n \<longrightarrow> map_of fs q = Some n \<or> n = Dir)"
    if m: "mkdir_parents fs dest_dir = Inl (e, fs1)" for e fs1
  proof -
    have "map_of fs q = Some n \<or> n = Dir" if "map_of fs1 q = Some n" for q n
      using mkdir_parents_adds_dirs[of fs dest_dir fs1 e q n] m that by simp
    with m mkdir_parents_ok[of fs dest_dir fs1 e] mkdir_parents_fails[OF m] show ?thesis
      by (simp add: install_item_def)
  qed
  have made: "is_dir fs1 dest_dir \<and> map_of fs \<subseteq>\<^sub>m map_of fs1"
    if "mkdir_parents fs dest_dir = Inr fs1" for fs1
    using that mkdir_parents_ok[of fs dest_dir fs1] by simp
  have refused: "install_item fs item dest_dir =
                 (fs1, \<lparr>op_item = item, action = ''install'', success = False,
                        message = ''Destination already exists: '' @ str_path (dest_path item)\<rparr>)"
    if "mkdir_parents fs dest_dir = Inr fs1"
      "exists fs1 (dest_path item) \<or> is_symlink fs1 (dest_path item)" for fs1
    using that by (auto simp: install_item_def)
  have linked: "\<exists>fs2 r. install_item fs item dest_dir = (fs2, r)
                  \<and> op_item r = item \<and> action r = ''install'' \<and> success r
                  \<and> message r = ''Created symlink: '' @ str_path (dest_path item)
                                 @ '' -> '' @ str_path (source_path item)
                  \<and> sublist (str_path (dest_path item)) (message r)
                  \<and> sublist (str_path (source_path item)) (message r)
                  \<and> lstat fs2 (dest_path item) = Inr (Symlink (source_path item))
                  \<and> map_of fs1 \<subseteq>\<^sub>m map_of fs2"
    if m: "mkdir_parents fs dest_dir = Inr fs1"
      and free: "\<not> exists fs1 (dest_path item)" "\<not> is_symlink fs1 (dest_path item)" for fs1
  proof -
    from made[OF m] have "is_dir fs1 dest_dir" by simp
    from symlink_to_fresh[OF this, of n "source_path item"] free assms
    obtain fs2 where fs2: "symlink_to fs1 (dest_path item) (source_path item) = Inr fs2"
      "lstat fs2 (dest_path item) = Inr (Symlink (source_path item))"
      "map_of fs1 \<subseteq>\<^sub>m map_of fs2"
      by auto
    have "install_item fs item dest_dir =
        (fs2, \<lparr>op_item = item, action = ''install'', success = True,
               message = ''Created symlink: '' @ str_path (dest_path item)
                         @ '' -> '' @ str_path (source_path item)\<rparr>)"
      using m free fs2(1) by (simp add: install_item_def)
    then show ?thesis
      using fs2(2,3) sublist_mid[of "str_path (dest_path item)" "''Created symlink: ''"]
        sublist_end[of "str_path (source_path item)" "''Created symlink: '' @ str_path (dest_path item)" "'' -> ''"]
      by simp
  qed
  from failing made refused linked install_item_occupied[OF _ assms, of fs] show ?thesis
    by blast
qed

text \<open>The three outcomes: a fresh destination, a blocked category directory, an
  occupied destination.\<close>

theorem install_item_cases_witness:
  "(dest_path ex_item = [''c'', ''commands''] @ [''a.md'']
    \<and> mkdir_parents fs_fresh [''c'', ''commands''] = Inr (([''c'', ''commands''], Dir) # fs_fresh)
    \<and> \<not> exists (([''c'', ''commands''], Dir) # fs_fresh) (dest_path ex_item)
    \<and> \<not> is_symlink (([''c'', ''commands''], Dir) # fs_fresh) (dest_path ex_item)
    \<and> (\<exists>fs2 r. install_item fs_fresh ex_item [''c'', ''commands''] = (fs2, r) \<and> success r
          \<and> lstat fs2 (dest_path ex_item) = Inr (Symlink (source_path ex_item))))
   \<and> (mkdir_parents fs_blocked [''c'', ''commands'']
         = Inl (OSError EEXIST [''c'', ''commands''], fs_blocked)
      \<and> install_item fs_blocked ex_item [''c'', ''commands''] =
          (fs_blocked, \<lparr>op_item = ex_item, action = ''install'', success = False,
                        message = str_exn (OSError EEXIST [''c'', ''commands''])\<rparr>))
   \<and> (mkdir_parents fs_occupied [''c'', ''commands''] = Inr fs_occupied
      \<and> exists fs_occupied (dest_path ex_item)
      \<and> install_item fs_occupied ex_item [''c'', ''commands''] =
          (fs_occupied, \<lparr>op_item = ex_item, action = ''install'', success = False,
             message = ''Destination already exists: '' @ str_path (dest_path ex_item)\<rparr>))"
proof -
  have d: "dest_path ex_item = [''c'', ''commands''] @ [''a.md'']"
    by code_simp
  have m1: "mkdir_parents fs_fresh [''c'', ''commands''] = Inr (([''c'', ''commands''], Dir) # fs_fresh)"
    by code_simp
  have f1: "\<not> exists (([''c'', ''commands''], Dir) # fs_fresh) (dest_path ex_item)"
    "\<not> is_symlink (([''c'', ''commands''], Dir) # fs_fresh) (dest_path ex_item)"
    by code_simp+
  have m2: "mkdir_parents fs_blocked [''c'', ''commands'']
         = Inl (OSError EEXIST [''c'', ''commands''], fs_blocked)"
    by code_simp
  have m3: "mkdir_parents fs_occupied [''c'', ''commands''] = Inr fs_occupied"
    "exists fs_occupied (dest_path ex_item)"
    by code_simp+
  from install_item_cases[OF d, of fs_fresh] m1 f1
  have w1: "\<exists>fs2 r. install_item fs_fresh ex_item [''c'', ''commands''] = (fs2, r) \<and> success r
          \<and> lstat fs2 (dest_path ex_item) = Inr (Symlink (source_path ex_item))"
    by blast
  from install_item_cases[OF d, of fs_blocked] m2
  have w2: "install_item fs_blocked ex_item [''c'', ''commands''] =
          (fs_blocked, \<lparr>op_item = ex_item, action = ''install'', success = False,
                        message = str_exn (OSError EEXIST [''c'', ''commands''])\<rparr>)"
    by blast
  from install_item_cases[OF d, of fs_occupied] m3
  have w3: "install_item fs_occupied ex_item [''c'', ''commands''] =
          (fs_occupied, \<lparr>op_item = ex_item, action = ''install'', success = False,
             message = ''Destination already exists: '' @ str_path (dest_path ex_item)\<rparr>)"
    by blast
  from d m1 f1 m2 m3 w1 w2 w3 show ?thesis by blast
qed



subsection \<open>Uninstall\<close>

text \<open>The four facts about \<open>_uninstall_item\<close>: its two refusals, what a change or a
  success implies, and what passing both tests gives.\<close>

lemma uninstall_item_cases:
  assumes "uninstall_item fs item = (fs', r)"
  shows
    "(\<not> is_symlink fs (dest_path item) \<longrightarrow>
        fs' = fs \<and> \<not> success r \<and> message r = ''Not a symlink: '' @ str_path (dest_path item))
     \<and> (\<forall>t e. is_symlink fs (dest_path item) \<and> resolve fs (dest_path item) = Inr t
              \<and> resolve fs (source_path item) = Inr e \<and> t \<noteq> e \<longrightarrow>
        fs' = fs \<and> \<not> success r \<and> message r = ''Symlink points elsewhere: '' @ str_path t)
     \<and> (fs' \<noteq> fs \<or> success r \<longrightarrow>
        is_symlink fs (dest_path item)
        \<and> (\<exists>t. resolve fs (dest_path item) = Inr t \<and> resolve fs (source_path item) = Inr t)
        \<and> unlink fs (dest_path item) = Inr fs')
     \<and> (is_symlink fs (dest_path item)
        \<and> (\<exists>t. resolve fs (dest_path item) = Inr t \<and> resolve fs (source_path item) = Inr t) \<longrightarrow>
        success r \<and> action r = ''uninstall'' \<and> unlink fs (dest_path item) = Inr fs'
        \<and> (\<exists>e. lstat fs' (dest_path item) = Inl e) \<and> map_of fs' \<subseteq>\<^sub>m map_of fs)"
proof -
  have refuse1: "\<not> is_symlink fs (dest_path item) \<longrightarrow>
        fs' = fs \<and> \<not> success r \<and> message r = ''Not a symlink: '' @ str_path (dest_path item)"
    using assms by (auto simp: uninstall_item_def)
  have refuse2: "\<forall>t e. is_symlink fs (dest_path item) \<and> resolve fs (dest_path item) = Inr t
              \<and> resolve fs (source_path item) = Inr e \<and> t \<noteq> e \<longrightarrow>
        fs' = fs \<and> \<not> success r \<and> message r = ''Symlink points elsewhere: '' @ str_path t"
    using assms by (auto simp: uninstall_item_def)
  have only: "fs' \<noteq> fs \<or> success r \<longrightarrow>
        is_symlink fs (dest_path item)
        \<and> (\<exists>t. resolve fs (dest_path item) = Inr t \<and> resolve fs (source_path item) = Inr t)
        \<and> unlink fs (dest_path item) = Inr fs'"
    using assms by (auto simp: uninstall_item_def split: if_splits sum.splits)
  have removes: "success r \<and> action r = ''uninstall'' \<and> unlink fs (dest_path item) = Inr fs'
        \<and> (\<exists>e. lstat fs' (dest_path item) = Inl e) \<and> map_of fs' \<subseteq>\<^sub>m map_of fs"
    if l: "is_symlink fs (dest_path item)"
      and t: "\<exists>t. resolve fs (dest_path item) = Inr t \<and> resolve fs (source_path item) = Inr t"
  proof -
    from unlink_symlink[OF l] obtain fs2 where u: "unlink fs (dest_path item) = Inr fs2"
      by blast
    with assms l t have "fs' = fs2" "success r" "action r = ''uninstall''"
      by (auto simp: uninstall_item_def)
    with u unlink_gone[OF u] show ?thesis by simp
  qed
  from refuse1 refuse2 only removes show ?thesis by blast
qed

subsection \<open>The reconciler\<close>

text \<open>
  C1. \<open>_uninstall_item\<close> changes the file system only by unlinking \<open>dest_path\<close>, and
  only when, in the file system it is called on, \<open>dest_path\<close> is a symbolic link and
  \<open>resolve\<close> gives the same path for it and for \<open>source_path\<close>. When \<open>dest_path\<close> is
  no symbolic link it refuses with "Not a symlink"; when the two resolved paths differ
  it refuses with "Symlink points elsewhere"; in both cases nothing is changed. When
  both tests pass the link is removed (an \<open>lstat\<close> of \<open>dest_path\<close> fails afterwards,
  and no other entry is added or changed) and the result is a success. For the
  reconciler as a whole: whatever branch the loop of \<open>apply_changes\<close> takes for an
  artifact, either every entry that was there is still there unchanged, or the one
  change is that unlink of the confirmed link.
\<close>

theorem reconciler_removes_only_confirmed_link:
  "(\<forall>fs' r. uninstall_item fs item = (fs', r) \<longrightarrow>
      (\<not> is_symlink fs (dest_path item) \<longrightarrow>
          fs' = fs \<and> \<not> success r
          \<and> message r = ''Not a symlink: '' @ str_path (dest_path item))
      \<and> (\<forall>t e. is_symlink fs (dest_path item) \<and> resolve fs (dest_path item) = Inr t
               \<and> resolve fs (source_path item) = Inr e \<and> t \<noteq> e \<longrightarrow>
          fs' = fs \<and> \<not> success r
          \<and> message r = ''Symlink points elsewhere: '' @ str_path t)
      \<and> (fs' \<noteq> fs \<or> success r \<longrightarrow>
          is_symlink fs (dest_path item)
          \<and> (\<exists>t. resolve fs (dest_path item) = Inr t \<and> resolve fs (source_path item) = Inr t)
          \<and> unlink fs (dest_path item) = Inr fs')
      \<and> (is_symlink fs (dest_path item)
          \<and> (\<exists>t. resolve fs (dest_path item) = Inr t \<and> resolve fs (source_path item) = Inr t) \<longrightarrow>
          success r \<and> action r = ''uninstall'' \<and> unlink fs (dest_path item) = Inr fs'
          \<and> (\<exists>e. lstat fs' (dest_path item) = Inl e) \<and> map_of fs' \<subseteq>\<^sub>m map_of fs))
   \<and> (\<forall>d fs' rs. apply_item fs d item = (fs', rs) \<longrightarrow>
        map_of fs \<subseteq>\<^sub>m map_of fs'
        \<or> (is_symlink fs (dest_path item)
           \<and> (\<exists>t. resolve fs (dest_path item) = Inr t \<and> resolve fs (source_path item) = Inr t)
           \<and> unlink fs (dest_path item) = Inr fs'))"
proof -
  have step: "map_of fs \<subseteq>\<^sub>m map_of fs'
        \<or> (is_symlink fs (dest_path item)
           \<and> (\<exists>t. resolve fs (dest_path item) = Inr t \<and> resolve fs (source_path item) = Inr t)
           \<and> unlink fs (dest_path item) = Inr fs')"
    if a: "apply_item fs d item = (fs', rs)" for d fs' rs
  proof (cases "selected item \<and> status item \<noteq> INSTALLED")
    case True
    with a obtain r where "install_item fs item d = (fs', r)"
      by (auto simp: apply_item_def split: prod.splits)
    from install_item_le[OF this] show ?thesis by simp
  next
    case False
    show ?thesis
    proof (cases "\<not> selected item \<and> status item = INSTALLED")
      case True
      with a obtain r where u: "uninstall_item fs item = (fs', r)"
        by (auto simp: apply_item_def split: prod.splits)
      show ?thesis
      proof (cases "fs' = fs")
        case True
        then show ?thesis by simp
      next
        case False
        with uninstall_item_cases[OF u] show ?thesis by blast
      qed
    next
      case f2: False
      with False a have "fs' = fs"
        by (auto simp: apply_item_def split: if_splits)
      then show ?thesis by simp
    qed
  qed
  from uninstall_item_cases step show ?thesis by blast
qed

text \<open>The installed link is removed; the regular file and the link to another file
  are refused.\<close>

theorem reconciler_removes_only_confirmed_link_witness:
  "(is_symlink fs_linked (dest_path ex_item)
    \<and> resolve fs_linked (dest_path ex_item) = Inr [''s'', ''commands'', ''a.md'']
    \<and> resolve fs_linked (source_path ex_item) = Inr [''s'', ''commands'', ''a.md'']
    \<and> success (snd (uninstall_item fs_linked ex_item))
    \<and> (\<exists>e. lstat (fst (uninstall_item fs_linked ex_item)) (dest_path ex_item) = Inl e))
   \<and> (\<not> is_symlink fs_occupied (dest_path ex_item)
      \<and> fst (uninstall_item fs_occupied ex_item) = fs_occupied
      \<and> message (snd (uninstall_item fs_occupied ex_item)) = ''Not a symlink: /c/commands/a.md'')
   \<and> (is_symlink fs_elsewhere (dest_path ex_item)
      \<and> resolve fs_elsewhere (dest_path ex_item) = Inr [''tmp'', ''other'']
      \<and> resolve fs_elsewhere (source_path ex_item) = Inr [''s'', ''commands'', ''a.md'']
      \<and> fst (uninstall_item fs_elsewhere ex_item) = fs_elsewhere
      \<and> message (snd (uninstall_item fs_elsewhere ex_item)) = ''Symlink points elsewhere: /tmp/other'')"
proof -
  have a: "is_symlink fs_linked (dest_path ex_item)"
    "resolve fs_linked (dest_path ex_item) = Inr [''s'', ''commands'', ''a.md'']"
    "resolve fs_linked (source_path ex_item) = Inr [''s'', ''commands'', ''a.md'']"
    by code_simp+
  have b: "\<not> is_symlink fs_occupied (dest_path ex_item)"
    by code_simp
  have c: "is_symlink fs_elsewhere (dest_path ex_item)"
    "resolve fs_elsewhere (dest_path ex_item) = Inr [''tmp'', ''other'']"
    "resolve fs_elsewhere (source_path ex_item) = Inr [''s'', ''commands'', ''a.md'']"
    by code_simp+
  have d: "str_path (dest_path ex_item) = ''/c/commands/a.md''" "str_path [''tmp'', ''other''] = ''/tmp/other''"
    by code_simp+
  have ne: "[''tmp'', ''other''] \<noteq> [''s'', ''commands'', ''a.md'']"
    by simp
  note t1 = reconciler_removes_only_confirmed_link[of fs_linked ex_item, THEN conjunct1, rule_format,
      of "fst (uninstall_item fs_linked ex_item)" "snd (uninstall_item fs_linked ex_item)"]
  note t2 = reconciler_removes_only_confirmed_link[of fs_occupied ex_item, THEN conjunct1, rule_format,
      of "fst (uninstall_item fs_occupied ex_item)" "snd (uninstall_item fs_occupied ex_item)"]
  note t3 = reconciler_removes_only_confirmed_link[of fs_elsewhere ex_item, THEN conjunct1, rule_format,
      of "fst (uninstall_item fs_elsewhere ex_item)" "snd (uninstall_item fs_elsewhere ex_item)"]
  have w1: "success (snd (uninstall_item fs_linked ex_item))
    \<and> (\<exists>e. lstat (fst (uninstall_item fs_linked ex_item)) (dest_path ex_item) = Inl e)"
    using t1 a by simp
  have w2: "fst (uninstall_item fs_occupied ex_item) = fs_occupied
      \<and> message (snd (uninstall_item fs_occupied ex_item)) = ''Not a symlink: /c/commands/a.md''"
    using t2 b d by simp
  have w3: "fst (uninstall_item fs_elsewhere ex_item) = fs_elsewhere
      \<and> message (snd (uninstall_item fs_elsewhere ex_item)) = ''Symlink points elsewhere: /tmp/other''"
    using t3 c d ne by simp
  from a b c w1 w2 w3 show ?thesis by blast
qed

text \<open>
  C2. A selected artifact of status CONFLICT takes the first branch of the loop of
  \<open>apply_changes\<close> (selected and not INSTALLED), so \<open>_install_item\<close> runs and the
  branch written for it, with the message "Cannot install: ...", is never reached. With
  the regular file in the way the result carries the message of \<open>_install_item\<close>, not
  the stored reason; with a stale CONFLICT on a free destination the link is made.
\<close>

theorem selected_conflict_runs_install:
  "status ex_conflict = CONFLICT \<and> selected ex_conflict
   \<and> error_message ex_conflict = Some ''Path exists but is not a symlink: /c/commands/a.md''
   \<and> apply_categories fs_occupied [''c''] [\<lparr>cat_name = ''commands'', items = [ex_conflict]\<rparr>] =
       (fs_occupied,
        [\<lparr>op_item = ex_conflict, action = ''install'', success = False,
          message = ''Destination already exists: /c/commands/a.md''\<rparr>])
   \<and> ''Destination already exists: /c/commands/a.md''
       \<noteq> ''Cannot install: Path exists but is not a symlink: /c/commands/a.md''
   \<and> apply_item fs_fresh [''c'', ''commands''] ex_conflict =
       (let (fs', r) = install_item fs_fresh ex_conflict [''c'', ''commands''] in (fs', [r]))
   \<and> success (snd (install_item fs_fresh ex_conflict [''c'', ''commands'']))"
  by code_simp

lemma conflict_occupied:
  "status (check_status fs item) = CONFLICT \<Longrightarrow>
   exists fs (dest_path item) \<or> is_symlink fs (dest_path item)"
  by (auto simp: check_status_def split: if_splits)

text \<open>
  C5. An artifact of status CONFLICT is not refused with either selection: the status
  is the stored one, and when the file that was in the way has been removed since, a
  selected artifact takes the first branch of the loop of \<open>apply_changes\<close> (the slip
  of C2), \<open>_install_item\<close> makes the category directory and the link, and the result
  is a success. The path that had no object has a symbolic link afterwards.
\<close>

theorem stale_conflict_is_installed:
  "status ex_conflict = CONFLICT \<and> selected ex_conflict
   \<and> lstat fs_fresh (dest_path ex_conflict) = Inl ENOENT
   \<and> fst (apply_changes fs_fresh [''c''] [\<lparr>cat_name = ''commands'', items = [ex_conflict]\<rparr>]) =
       ([''c'', ''commands'', ''a.md''], Symlink [''s'', ''commands'', ''a.md''])
         # ([''c'', ''commands''], Dir) # fs_fresh
   \<and> fst (snd (apply_changes fs_fresh [''c''] [\<lparr>cat_name = ''commands'', items = [ex_conflict]\<rparr>])) =
       [\<lparr>op_item = ex_conflict, action = ''install'', success = True,
         message = ''Created symlink: /c/commands/a.md -> /s/commands/a.md''\<rparr>]
   \<and> lstat (fst (apply_changes fs_fresh [''c''] [\<lparr>cat_name = ''commands'', items = [ex_conflict]\<rparr>]))
        (dest_path ex_conflict) = Inr (Symlink [''s'', ''commands'', ''a.md''])"
  by code_simp

text \<open>When the stored status is also the verdict of \<open>check_status\<close> on the file system
  that \<open>apply_changes\<close> runs on, the artifact is refused with either selection and the
  file system is returned as it was.\<close>

lemma fresh_conflict_is_refused:
  assumes "status item = CONFLICT"
    and "status (check_status fs item) = CONFLICT"
    and "c = ''commands'' \<or> c = ''skills'' \<or> c = ''agents''"
    and "dest_path item = claude_dir @ [c, n]"
  shows "\<exists>r. apply_item fs (claude_dir @ [c]) item = (fs, [r]) \<and> \<not> success r \<and> op_item r = item
             \<and> action r = (if selected item then ''install'' else ''uninstall'')
             \<and> (\<exists>cats. apply_changes fs claude_dir [\<lparr>cat_name = c, items = [item]\<rparr>]
                          = (fs, [r], cats))"
proof -
  have d: "dest_path item = (claude_dir @ [c]) @ [n]"
    using assms(4) by simp
  have "\<exists>r. apply_item fs (claude_dir @ [c]) item = (fs, [r]) \<and> \<not> success r \<and> op_item r = item
             \<and> action r = (if selected item then ''install'' else ''uninstall'')"
  proof (cases "selected item")
    case True
    then have "apply_item fs (claude_dir @ [c]) item =
        (let (fs', r) = install_item fs item (claude_dir @ [c]) in (fs', [r]))"
      using assms(1) by (simp add: apply_item_def)
    then show ?thesis
      using install_item_occupied[OF conflict_occupied[OF assms(2)] d] True by simp
  next
    case False
    then show ?thesis using assms(1) by (simp add: apply_item_def)
  qed
  then obtain r where r: "apply_item fs (claude_dir @ [c]) item = (fs, [r])" "\<not> success r"
    "op_item r = item" "action r = (if selected item then ''install'' else ''uninstall'')"
    by blast
  have "apply_changes fs claude_dir [\<lparr>cat_name = c, items = [item]\<rparr>]
          = (fs, [r], refresh fs [\<lparr>cat_name = c, items = [item]\<rparr>])"
    using assms(3) r(1) by (auto simp: apply_changes_def)
  with r show ?thesis by blast
qed

lemma apply_items_append:
  "apply_items fs d (xs @ ys) =
     (let (fs1, rs1) = apply_items fs d xs; (fs2, rs2) = apply_items fs1 d ys in (fs2, rs1 @ rs2))"
  by (induction xs arbitrary: fs) (auto split: prod.splits)

text \<open>
  C6. An artifact whose status matches its selection (INSTALLED and selected, or
  NOT_INSTALLED and not selected) takes no branch of the loop of \<open>apply_changes\<close>: the
  file system is returned as it was and no result is appended, so the batch with the
  artifact does what the batch without it does.
\<close>

theorem satisfied_item_is_skipped:
  assumes "(status item = INSTALLED \<and> selected item) \<or> (status item = NOT_INSTALLED \<and> \<not> selected item)"
  shows "apply_item fs d item = (fs, []) \<and>
         apply_items fs d (xs @ item # ys) = apply_items fs d (xs @ ys)"
proof -
  have a: "apply_item fs' d item = (fs', [])" for fs'
    using assms by (auto simp: apply_item_def)
  have "apply_items fs' d (item # ys) = apply_items fs' d ys" for fs'
    by (simp add: a split: prod.splits)
  then show ?thesis
    using a by (simp add: apply_items_append[of fs d xs] split: prod.splits)
qed

text \<open>The artifact that is not installed and not selected.\<close>

theorem satisfied_item_is_skipped_witness:
  "status (check_status fs_fresh ex_item) = NOT_INSTALLED \<and> \<not> selected (check_status fs_fresh ex_item)
   \<and> apply_item fs_fresh [''c'', ''commands''] (check_status fs_fresh ex_item) = (fs_fresh, [])
   \<and> apply_items fs_fresh [''c'', ''commands''] ([] @ check_status fs_fresh ex_item # [])
       = apply_items fs_fresh [''c'', ''commands''] ([] @ [])"
proof -
  have a: "status (check_status fs_fresh ex_item) = NOT_INSTALLED"
    by code_simp
  have b: "\<not> selected (check_status fs_fresh ex_item)"
    by code_simp
  show ?thesis
    using satisfied_item_is_skipped[of "check_status fs_fresh ex_item" fs_fresh "[''c'', ''commands'']" "[]" "[]"]
      a b
    by blast
qed

subsection \<open>Discovery\<close>

text \<open>
  C8 as stated fails on the order: \<open>sorted\<close> compares the paths, so \<open>a-b.md\<close> comes
  before \<open>a.md\<close> (\<open>-\<close> is smaller than \<open>.\<close>), while the name \<open>a\<close> is smaller than the
  name \<open>a-b\<close>.
\<close>

theorem names_not_sorted_counterexample:
  "discover_items fs_hyphen [''s''] [''c''] = Inr [hyphen_category]
   \<and> map name (items hyphen_category) = [''a-b'', ''a'']
   \<and> \<not> sorted (map name (items hyphen_category))"
  by code_simp

text \<open>Paths of one directory are ordered as their last components are.\<close>

lemma snoc_le: "(p @ [a] \<le> p @ [b]) = (a \<le> (b::'a::linorder))"
  by (induction p) auto

lemma sorted_last:
  "(\<forall>x\<in>set xs. \<exists>n. x = p @ [n]) \<Longrightarrow> sorted xs \<Longrightarrow> sorted (map last (xs::'a::linorder list list))"
proof (induction xs)
  case Nil
  then show ?case by simp
next
  case (Cons x xs)
  from Cons.prems(1) obtain n where n: "x = p @ [n]" by auto
  have "n \<le> last y" if "y \<in> set xs" for y
  proof -
    from Cons.prems(1) that obtain m where m: "y = p @ [m]" by auto
    from Cons.prems(2) that have "x \<le> y" by simp
    with n m show ?thesis by (simp add: snoc_le)
  qed
  with Cons n show ?case by simp
qed

lemma glob_shape: "f \<in> set (glob fs p suf) \<Longrightarrow> \<exists>n. f = p @ [n]"
  by (auto simp: glob_def split: if_splits sum.splits)

lemma iterdir_shape: "iterdir fs p = Inr ds \<Longrightarrow> d \<in> set ds \<Longrightarrow> \<exists>n. d = p @ [n]"
  by (auto simp: iterdir_def split: sum.splits option.splits node.splits)

lemma iterdir_fails: "iterdir fs p = Inl e \<Longrightarrow> \<not> is_dir fs p"
  by (auto simp: iterdir_def is_dir_walk split: sum.splits option.splits node.splits)

lemma check_status_fields [simp]:
  "name (check_status fs i) = name i" "category (check_status fs i) = category i"
  "source_path (check_status fs i) = source_path i" "dest_path (check_status fs i) = dest_path i"
  "selected (check_status fs i) = selected i"
  by (auto simp: check_status_def split: sum.splits)

lemma check_status_idem:
  "check_status fs ((check_status fs i)\<lparr>selected := b\<rparr>) = (check_status fs i)\<lparr>selected := b\<rparr>"
  by (auto simp: check_status_def split: sum.splits)

lemma discovered_fields:
  "name (discovered fs n c s d) = n" "category (discovered fs n c s d) = c"
  "source_path (discovered fs n c s d) = s" "dest_path (discovered fs n c s d) = d"
  "selected (discovered fs n c s d) = (status (discovered fs n c s d) = INSTALLED)"
  "check_status fs (discovered fs n c s d) = discovered fs n c s d"
  by (simp_all add: discovered_def Let_def new_Item_def check_status_idem)

lemma category_of_names: "cat_name ` set (category_of c xs) = (if xs \<noteq> [] then {c} else {})"
  by (simp add: category_of_def)

lemma category_of_items: "cat \<in> set (category_of c xs) \<Longrightarrow> cat_name cat = c \<and> items cat = xs \<and> xs \<noteq> []"
  by (auto simp: category_of_def split: if_splits)

lemma names_if:
  "cat_name ` set (if b then category_of c xs else []) = (if b \<and> xs \<noteq> [] then {c} else {})"
  by (simp add: category_of_def)

text \<open>What \<open>discover_items\<close> returns, category by category.\<close>

lemma discover_items_Inr:
  assumes "discover_items fs s c = Inr cats"
  shows "\<exists>ds. (exists fs (s @ [''skills'']) \<longrightarrow> iterdir fs (s @ [''skills'']) = Inr ds)
          \<and> cats =
              (if exists fs (s @ [''commands''])
               then category_of ''commands'' (leaf_items fs ''commands'' (s @ [''commands'']) (c @ [''commands'']))
               else [])
              @ (if exists fs (s @ [''skills''])
                 then category_of ''skills'' (skill_items fs ds (c @ [''skills'']))
                 else [])
              @ (if exists fs (s @ [''agents''])
                 then category_of ''agents'' (leaf_items fs ''agents'' (s @ [''agents'']) (c @ [''agents'']))
                 else [])"
  using assms by (auto simp: discover_items_def Let_def split: if_splits sum.splits)

text \<open>
  C7. No category that \<open>discover_items\<close> returns is empty. A category appears exactly
  when its source subdirectory exists and holds at least one artifact: a missing
  subdirectory gives no category and no error, and so does a subdirectory without an
  artifact. The only exception that leaves \<open>discover_items\<close> comes from a \<open>skills\<close>
  that exists and is no directory.
\<close>

theorem discovery_has_no_empty_category:
  "(\<forall>cats. discover_items fs s c = Inr cats \<longrightarrow>
       (\<forall>cat\<in>set cats. items cat \<noteq> [])
       \<and> (''commands'' \<in> cat_name ` set cats \<longleftrightarrow>
            exists fs (s @ [''commands''])
            \<and> leaf_items fs ''commands'' (s @ [''commands'']) (c @ [''commands'']) \<noteq> [])
       \<and> (''skills'' \<in> cat_name ` set cats \<longleftrightarrow>
            exists fs (s @ [''skills''])
            \<and> (\<exists>ds. iterdir fs (s @ [''skills'']) = Inr ds
                     \<and> skill_items fs ds (c @ [''skills'']) \<noteq> []))
       \<and> (''agents'' \<in> cat_name ` set cats \<longleftrightarrow>
            exists fs (s @ [''agents''])
            \<and> leaf_items fs ''agents'' (s @ [''agents'']) (c @ [''agents'']) \<noteq> []))
   \<and> (\<forall>e. discover_items fs s c = Inl e \<longrightarrow>
         exists fs (s @ [''skills'']) \<and> \<not> is_dir fs (s @ [''skills'']))"
proof -
  have ok: "(\<forall>cat\<in>set cats. items cat \<noteq> [])
       \<and> (''commands'' \<in> cat_name ` set cats \<longleftrightarrow>
            exists fs (s @ [''commands''])
            \<and> leaf_items fs ''commands'' (s @ [''commands'']) (c @ [''commands'']) \<noteq> [])
       \<and> (''skills'' \<in> cat_name ` set cats \<longleftrightarrow>
            exists fs (s @ [''skills''])
            \<and> (\<exists>ds. iterdir fs (s @ [''skills'']) = Inr ds
                     \<and> skill_items fs ds (c @ [''skills'']) \<noteq> []))
       \<and> (''agents'' \<in> cat_name ` set cats \<longleftrightarrow>
            exists fs (s @ [''agents''])
            \<and> leaf_items fs ''agents'' (s @ [''agents'']) (c @ [''agents'']) \<noteq> [])"
    if "discover_items fs s c = Inr cats" for cats
  proof -
    from discover_items_Inr[OF that] obtain ds where
      ds: "exists fs (s @ [''skills'']) \<longrightarrow> iterdir fs (s @ [''skills'']) = Inr ds"
      and cats: "cats =
              (if exists fs (s @ [''commands''])
               then category_of ''commands'' (leaf_items fs ''commands'' (s @ [''commands'']) (c @ [''commands'']))
               else [])
              @ (if exists fs (s @ [''skills''])
                 then category_of ''skills'' (skill_items fs ds (c @ [''skills'']))
                 else [])
              @ (if exists fs (s @ [''agents''])
                 then category_of ''agents'' (leaf_items fs ''agents'' (s @ [''agents'']) (c @ [''agents'']))
                 else [])"
      by blast
    have names: "cat_name ` set cats =
        (if exists fs (s @ [''commands''])
            \<and> leaf_items fs ''commands'' (s @ [''commands'']) (c @ [''commands'']) \<noteq> []
         then {''commands''} else {})
        \<union> ((if exists fs (s @ [''skills'']) \<and> skill_items fs ds (c @ [''skills'']) \<noteq> []
             then {''skills''} else {})
           \<union> (if exists fs (s @ [''agents''])
                  \<and> leaf_items fs ''agents'' (s @ [''agents'']) (c @ [''agents'']) \<noteq> []
               then {''agents''} else {}))"
      unfolding cats by (simp only: set_append image_Un names_if)
    have 1: "\<forall>cat\<in>set cats. items cat \<noteq> []"
      unfolding cats by (auto dest: category_of_items split: if_splits)
    have 2: "''commands'' \<in> cat_name ` set cats \<longleftrightarrow>
            exists fs (s @ [''commands''])
            \<and> leaf_items fs ''commands'' (s @ [''commands'']) (c @ [''commands'']) \<noteq> []"
      unfolding names by simp
    have 3: "''skills'' \<in> cat_name ` set cats \<longleftrightarrow>
            exists fs (s @ [''skills''])
            \<and> (\<exists>ds. iterdir fs (s @ [''skills'']) = Inr ds
                     \<and> skill_items fs ds (c @ [''skills'']) \<noteq> [])"
      unfolding names using ds by auto
    have 4: "''agents'' \<in> cat_name ` set cats \<longleftrightarrow>
            exists fs (s @ [''agents''])
            \<and> leaf_items fs ''agents'' (s @ [''agents'']) (c @ [''agents'']) \<noteq> []"
      unfolding names by simp
    from 1 2 3 4 show ?thesis by blast
  qed
  have err: "exists fs (s @ [''skills'']) \<and> \<not> is_dir fs (s @ [''skills''])"
    if "discover_items fs s c = Inl e" for e
    using that
    by (auto simp: discover_items_def Let_def split: if_splits sum.splits dest: iterdir_fails)
  from ok err show ?thesis by blast
qed

text \<open>A source tree with nothing to install, one with \<open>commands\<close> only, and one where
  \<open>skills\<close> is a regular file.\<close>

theorem discovery_has_no_empty_category_witness:
  "(discover_items fs_sparse [''s''] [''c''] = Inr []
    \<and> exists fs_sparse ([''s''] @ [''commands'']) \<and> exists fs_sparse ([''s''] @ [''skills''])
    \<and> \<not> exists fs_sparse ([''s''] @ [''agents''])
    \<and> leaf_items fs_sparse ''commands'' ([''s''] @ [''commands'']) ([''c''] @ [''commands'']) = [])
   \<and> (discover_items fs_fresh [''s''] [''c''] = Inr [\<lparr>cat_name = ''commands'', items = [check_status fs_fresh ex_item]\<rparr>]
      \<and> \<not> exists fs_fresh ([''s''] @ [''skills''])
      \<and> ''skills'' \<notin> cat_name ` set [\<lparr>cat_name = ''commands'', items = [check_status fs_fresh ex_item]\<rparr>]
      \<and> list_all (\<lambda>cat. items cat \<noteq> [])
           [\<lparr>cat_name = ''commands'', items = [check_status fs_fresh ex_item]\<rparr>])
   \<and> (discover_items fs_skills_file [''s''] [''c''] = Inl (OSError ENOTDIR [''s'', ''skills''])
      \<and> exists fs_skills_file ([''s''] @ [''skills''])
      \<and> \<not> is_dir fs_skills_file ([''s''] @ [''skills'']))"
proof -
  have a: "discover_items fs_sparse [''s''] [''c''] = Inr []"
    "exists fs_sparse ([''s''] @ [''commands''])" "exists fs_sparse ([''s''] @ [''skills''])"
    "\<not> exists fs_sparse ([''s''] @ [''agents''])"
    by code_simp+
  have b: "discover_items fs_fresh [''s''] [''c'']
      = Inr [\<lparr>cat_name = ''commands'', items = [check_status fs_fresh ex_item]\<rparr>]"
    "\<not> exists fs_fresh ([''s''] @ [''skills''])"
    by code_simp+
  have c: "discover_items fs_skills_file [''s''] [''c''] = Inl (OSError ENOTDIR [''s'', ''skills''])"
    by code_simp
  note t1 = discovery_has_no_empty_category[of fs_sparse "[''s'']" "[''c'']"]
  note t2 = discovery_has_no_empty_category[of fs_fresh "[''s'']" "[''c'']"]
  note t3 = discovery_has_no_empty_category[of fs_skills_file "[''s'']" "[''c'']"]
  from t1 a have w1: "leaf_items fs_sparse ''commands'' ([''s''] @ [''commands'']) ([''c''] @ [''commands'']) = []"
    by auto
  from t2 b have w2: "''skills'' \<notin> cat_name ` set [\<lparr>cat_name = ''commands'', items = [check_status fs_fresh ex_item]\<rparr>]"
    "list_all (\<lambda>cat. items cat \<noteq> [])
       [\<lparr>cat_name = ''commands'', items = [check_status fs_fresh ex_item]\<rparr>]"
    unfolding list_all_iff by blast+
  from t3 c have w3: "exists fs_skills_file ([''s''] @ [''skills''])"
      "\<not> is_dir fs_skills_file ([''s''] @ [''skills''])"
    by blast+
  from a b c w1 w2 w3 show ?thesis by blast
qed

lemma leaf_items_paths:
  "map source_path (leaf_items fs k src dst) = sort (glob fs src ''.md'')"
  by (simp add: leaf_items_def comp_def discovered_fields)

lemma leaf_items_item:
  "i \<in> set (leaf_items fs k src dst) \<Longrightarrow>
   selected i = (status i = INSTALLED) \<and> check_status fs i = i
   \<and> name i = stem (last (source_path i)) \<and> category i = k
   \<and> dest_path i = dst @ [last (source_path i)]"
  by (auto simp: leaf_items_def discovered_fields)

lemma skill_items_paths:
  "map source_path (skill_items fs ds dst) =
     filter (\<lambda>d. is_dir fs d \<and> exists fs (d @ [''SKILL.md''])) (sort ds)"
  by (simp add: skill_items_def comp_def discovered_fields)

lemma skill_items_item:
  "i \<in> set (skill_items fs ds dst) \<Longrightarrow>
   selected i = (status i = INSTALLED) \<and> check_status fs i = i
   \<and> name i = last (source_path i) \<and> category i = ''skills''
   \<and> dest_path i = dst @ [last (source_path i)]"
  by (auto simp: skill_items_def discovered_fields)

lemma sorted_leaf_items:
  "sorted (map source_path (leaf_items fs k src dst))
   \<and> sorted (map last (map source_path (leaf_items fs k src dst)))"
proof -
  have "\<forall>x\<in>set (sort (glob fs src ''.md'')). \<exists>n. x = src @ [n]"
    using glob_shape by auto
  from sorted_last[OF this] show ?thesis
    by (simp add: leaf_items_paths)
qed

lemma sorted_skill_items:
  assumes "iterdir fs src = Inr ds"
  shows "sorted (map source_path (skill_items fs ds dst))
   \<and> sorted (map last (map source_path (skill_items fs ds dst)))"
proof -
  let ?xs = "filter (\<lambda>d. is_dir fs d \<and> exists fs (d @ [''SKILL.md''])) (sort ds)"
  have s: "sorted ?xs"
    using sorted_filter[of "\<lambda>x. x" "sort ds"] by simp
  have "\<forall>x\<in>set ?xs. \<exists>n. x = src @ [n]"
    using iterdir_shape[OF assms] by auto
  from sorted_last[OF this s] s show ?thesis
    by (simp add: skill_items_paths)
qed

text \<open>
  C8, amended. In every category that \<open>discover_items\<close> returns the artifacts are
  sorted by source path, that is by file name with its extension (for skills by
  directory name, which is the name of the artifact, so skills are sorted by name);
  every artifact is selected exactly when its status is INSTALLED, its status is the
  verdict of \<open>check_status\<close> on the file system, and its name is the stem of the file
  name (for skills the directory name).
\<close>

theorem discovered_items_sorted_and_selected:
  assumes "discover_items fs s c = Inr cats" and "cat \<in> set cats"
  shows "sorted (map source_path (items cat))
     \<and> sorted (map last (map source_path (items cat)))
     \<and> (cat_name cat = ''skills'' \<longrightarrow> sorted (map name (items cat)))
     \<and> (\<forall>i\<in>set (items cat).
           selected i = (status i = INSTALLED) \<and> check_status fs i = i
           \<and> name i = (if cat_name cat = ''skills'' then last (source_path i)
                       else stem (last (source_path i))))"
proof -
  from discover_items_Inr[OF assms(1)] obtain ds where
    ds: "exists fs (s @ [''skills'']) \<longrightarrow> iterdir fs (s @ [''skills'']) = Inr ds"
    and cats: "cats =
            (if exists fs (s @ [''commands''])
             then category_of ''commands'' (leaf_items fs ''commands'' (s @ [''commands'']) (c @ [''commands'']))
             else [])
            @ (if exists fs (s @ [''skills''])
               then category_of ''skills'' (skill_items fs ds (c @ [''skills'']))
               else [])
            @ (if exists fs (s @ [''agents''])
               then category_of ''agents'' (leaf_items fs ''agents'' (s @ [''agents'']) (c @ [''agents'']))
               else [])"
    by blast
  from assms(2) cats consider
    (leaf) k where "k = ''commands'' \<or> k = ''agents''" "cat_name cat = k"
      "items cat = leaf_items fs k (s @ [k]) (c @ [k])"
    | (skills) "exists fs (s @ [''skills''])" "cat_name cat = ''skills''"
      "items cat = skill_items fs ds (c @ [''skills''])"
    by (auto dest!: category_of_items split: if_splits)
  then show ?thesis
  proof cases
    case leaf
    from leaf(1,2) have ns: "cat_name cat \<noteq> ''skills''" by auto
    show ?thesis
      using sorted_leaf_items[of fs k "s @ [k]" "c @ [k]"] leaf(3) ns
        leaf_items_item[of _ fs k "s @ [k]" "c @ [k]"]
      by auto
  next
    case skills
    from ds skills(1) have it: "iterdir fs (s @ [''skills'']) = Inr ds" by simp
    have names: "map name (skill_items fs ds (c @ [''skills'']))
        = map last (map source_path (skill_items fs ds (c @ [''skills''])))"
      using skill_items_item[of _ fs ds "c @ [''skills'']"] by auto
    note sk = sorted_skill_items[OF it, of "c @ [''skills'']"]
    have sn: "sorted (map name (skill_items fs ds (c @ [''skills''])))"
      unfolding names using sk by blast
    show ?thesis
      using sk sn skills(2,3) skill_items_item[of _ fs ds "c @ [''skills'']"]
      by auto
  qed
qed

text \<open>The two commands \<open>a-b.md\<close> and \<open>a.md\<close>.\<close>

theorem discovered_items_sorted_and_selected_witness:
  "discover_items fs_hyphen [''s''] [''c''] = Inr [hyphen_category]
   \<and> hyphen_category \<in> set [hyphen_category]
   \<and> sorted (map source_path (items hyphen_category))
   \<and> sorted (map last (map source_path (items hyphen_category)))
   \<and> map last (map source_path (items hyphen_category)) = [''a-b.md'', ''a.md'']
   \<and> list_all (\<lambda>i. selected i = (status i = INSTALLED)) (items hyphen_category)"
proof -
  have d: "discover_items fs_hyphen [''s''] [''c''] = Inr [hyphen_category]"
    by code_simp
  have m: "hyphen_category \<in> set [hyphen_category]"
    by simp
  have l: "map last (map source_path (items hyphen_category)) = [''a-b.md'', ''a.md'']"
    by code_simp
  from discovered_items_sorted_and_selected[OF d m] d m l show ?thesis
    by (simp add: list_all_iff)
qed

end
